theory Spec2Isabelle
  imports Complex_Main "HOL-Library.Product_Lexorder" "HOL-Library.Log_Nat"
begin

section \<open>Kbus: fares, route distances, live location and trips (transport/views.py)\<close>

text \<open>
  The development follows \<^verbatim>\<open>src/transport/views.py\<close> and \<^verbatim>\<open>src/transport/models.py\<close>.
  Conventions of the embedding:
  \<^item> a Django model is a record, a table is the list of its rows, a query set is a
    \<open>filter\<close> of that list, \<^verbatim>\<open>order_by\<close> is a stable sort and \<^verbatim>\<open>.first()\<close> the head;
  \<^item> a finite Python \<^verbatim>\<open>float\<close> is the real number it denotes. The two route distance
    functions are stated over the great-circle distance in exact real arithmetic; the
    code that ingests a position and answers the ETA query takes the operations of
    double arithmetic and of the C library as parameters (\<open>float_ops\<close>), with the
    \<^verbatim>\<open>ValueError\<close> of \<^verbatim>\<open>math.sqrt\<close> as a branch;
  \<^item> a \<^verbatim>\<open>datetime\<close> is a real number of seconds, so that
    \<^verbatim>\<open>(t2 - t1).total_seconds()\<close> is a subtraction;
  \<^item> \<^verbatim>\<open>decimal.Decimal\<close> is modelled by its own representation (sign, coefficient,
    exponent) under the default context (28 significant digits, half-even rounding),
    with the exceptions the default traps raise.
\<close>

subsection \<open>Models (models.py)\<close>

record stop =
  stop_id :: nat
  stop_route :: nat
  stop_name :: string
  stop_order :: int
  stop_lat :: real
  stop_lng :: real

record bus =
  bus_id :: nat
  operator_name :: string
  bus_route :: nat
  otp_code :: string
  current_stop :: "string option"
  trip_active :: bool
  trip_start_time :: "real option"

record live_location =
  loc_id :: nat
  loc_bus :: nat
  loc_lat :: real
  loc_lng :: real
  loc_speed :: real
  updated_at :: real

record bus_trip =
  trip_id :: nat
  trip_bus :: nat
  start_time :: real
  end_time :: "real option"

datatype role = Admin | Passenger | Driver

record user =
  user_id :: nat
  username :: string
  user_role :: role

record driver_registration =
  reg_id :: nat
  reg_user :: nat
  bus_otp :: string
  reg_created_at :: real

record driver_bus_assignment =
  asg_id :: nat
  asg_user :: nat
  asg_bus :: nat
  asg_active :: bool
  asg_start_time :: real
  asg_end_time :: "real option"

text \<open>
  The database: one list of rows per table, and the log of the rows written, in order
  (\<^verbatim>\<open>save(update_fields=...)\<close> and \<^verbatim>\<open>objects.create\<close>).
\<close>

datatype sql_write =
    BusUpdate nat | LocationUpdate nat | LocationInsert nat
  | TripUpdate nat | TripInsert nat | AssignmentInsert nat

record db =
  stop_tbl :: "stop list"
  bus_tbl :: "bus list"
  location_tbl :: "live_location list"
  trip_tbl :: "bus_trip list"
  registration_tbl :: "driver_registration list"
  assignment_tbl :: "driver_bus_assignment list"
  sql_log :: "sql_write list"

datatype http_error = BadRequest | Forbidden | NotFound

text \<open>
  The exceptions that the modelled code can raise, and the outcome of a view: a
  response, an error response (status 400, 403 or 404), or an exception that no
  handler of the view catches, so that the request ends with status 500.
\<close>

datatype py_exception = InvalidOperation | DivisionByZero | OverflowError | ValueError

datatype 'a view_result = Response 'a | Error http_error | Exception py_exception

subsection \<open>distance_meters in exact arithmetic\<close>

text \<open>The great-circle distance that the formula of \<^verbatim>\<open>distance_meters\<close> denotes, over the
  reals. \<^verbatim>\<open>math.radians\<close> and \<^verbatim>\<open>math.atan2\<close>; the quadrant cases of \<open>atan2\<close> are written
  out.\<close>

definition radians :: "real \<Rightarrow> real" where
  "radians x = x * (pi / 180)"

definition atan2 :: "real \<Rightarrow> real \<Rightarrow> real" where
  "atan2 y x =
     (if 0 < x then arctan (y / x)
      else if x < 0 then (if 0 \<le> y then arctan (y / x) + pi else arctan (y / x) - pi)
      else if 0 < y then pi / 2
      else if y < 0 then - (pi / 2)
      else 0)"

definition haversine_a :: "real \<Rightarrow> real \<Rightarrow> real \<Rightarrow> real \<Rightarrow> real" where
  "haversine_a lat1 lon1 lat2 lon2 =
     (let phi1 = radians lat1;
          phi2 = radians lat2;
          dphi = radians (lat2 - lat1);
          dlambda = radians (lon2 - lon1)
      in (sin (dphi / 2))\<^sup>2 + cos phi1 * cos phi2 * (sin (dlambda / 2))\<^sup>2)"

definition distance_meters :: "real \<Rightarrow> real \<Rightarrow> real \<Rightarrow> real \<Rightarrow> real" where
  "distance_meters lat1 lon1 lat2 lon2 =
     (let R = 6371000;
          a = haversine_a lat1 lon1 lat2 lon2
      in R * (2 * atan2 (sqrt a) (sqrt (1 - a))))"

text \<open>The distance between two stops, and from a position to a stop.\<close>

abbreviation stop_dist :: "stop \<Rightarrow> stop \<Rightarrow> real" where
  "stop_dist a b \<equiv> distance_meters (stop_lat a) (stop_lng a) (stop_lat b) (stop_lng b)"

abbreviation pos_dist :: "real \<Rightarrow> real \<Rightarrow> stop \<Rightarrow> real" where
  "pos_dist lat lng s \<equiv> distance_meters lat lng (stop_lat s) (stop_lng s)"

subsection \<open>The stops of a route, in route order\<close>

text \<open>\<^verbatim>\<open>list(Stop.objects.filter(route=route).order_by('order', 'id'))\<close>\<close>

definition route_stops :: "stop list \<Rightarrow> nat \<Rightarrow> stop list" where
  "route_stops tbl r =
     sort_key (\<lambda>s. (stop_order s, stop_id s)) (filter (\<lambda>s. stop_route s = r) tbl)"

text \<open>The route of five stops that \<^verbatim>\<open>tests.py\<close> builds (\<^verbatim>\<open>_mk_route_with_stops\<close>).\<close>

definition test_stop :: "nat \<Rightarrow> string \<Rightarrow> int \<Rightarrow> real \<Rightarrow> stop" where
  "test_stop i n k lat =
     \<lparr>stop_id = i, stop_route = 1, stop_name = n, stop_order = k, stop_lat = lat, stop_lng = 0\<rparr>"

definition test_stops :: "stop list" where
  "test_stops =
     [test_stop 1 ''S0'' 0 0, test_stop 2 ''S1'' 1 0.009, test_stop 3 ''S2'' 2 0.018,
      test_stop 4 ''S3'' 3 0.0216, test_stop 5 ''S4'' 4 0.0306]"

definition test_bus :: "string option \<Rightarrow> bus" where
  "test_bus cs =
     \<lparr>bus_id = 1, operator_name = ''operator'', bus_route = 1, otp_code = ''AB123'',
      current_stop = cs, trip_active = False, trip_start_time = None\<rparr>"

subsection \<open>_route_remaining_distance_m\<close>

text \<open>The search loop \<^verbatim>\<open>for s in stops: if s.name == bus.current_stop: current = s; break\<close>.\<close>

fun find_by_name :: "string \<Rightarrow> stop list \<Rightarrow> stop option" where
  "find_by_name n [] = None"
| "find_by_name n (s # ss) = (if stop_name s = n then Some s else find_by_name n ss)"

text \<open>The accumulating loop over \<^verbatim>\<open>remaining_stops[1:]\<close>, with its variables
  \<^verbatim>\<open>prev\<close> and \<^verbatim>\<open>path\<close>.\<close>

fun path_loop :: "stop \<Rightarrow> stop list \<Rightarrow> real \<Rightarrow> real" where
  "path_loop prev [] path = path"
| "path_loop prev (s # ss) path = path_loop s ss (path + stop_dist prev s)"

text \<open>\<^verbatim>\<open>if bus.current_stop:\<close> is false for \<^verbatim>\<open>None\<close> and for the empty string.\<close>

definition current_of :: "bus \<Rightarrow> stop list \<Rightarrow> stop option" where
  "current_of b stops =
     (case current_stop b of
        None \<Rightarrow> None
      | Some n \<Rightarrow> if n = [] then None else find_by_name n stops)"

definition route_remaining_distance_m ::
  "stop list \<Rightarrow> bus \<Rightarrow> real \<Rightarrow> real \<Rightarrow> stop option \<times> real option \<times> real option" where
  "route_remaining_distance_m tbl b lat lng =
     (case route_stops tbl (bus_route b) of
        [] \<Rightarrow> (None, None, None)
      | first # rest \<Rightarrow>
          (case current_of b (first # rest) of
             None \<Rightarrow>
               (let next_stop = first;
                    remaining = pos_dist lat lng next_stop
                in (Some next_stop, Some remaining, Some remaining))
           | Some current \<Rightarrow>
               (case filter (\<lambda>s. stop_order s > stop_order current) (first # rest) of
                  [] \<Rightarrow> (None, Some 0, Some 0)
                | next_stop # others \<Rightarrow>
                    (let dist_to_next = pos_dist lat lng next_stop;
                         path = path_loop next_stop others dist_to_next
                     in (Some next_stop, Some dist_to_next, Some path)))))"

subsection \<open>_route_path_distance_m\<close>



subsection \<open>Query helpers\<close>

text \<open>\<^verbatim>\<open>.first()\<close> of an ordered query set; \<^verbatim>\<open>.first()\<close> of a query set without
  ordering, which Django orders by primary key; \<^verbatim>\<open>order_by('-k', '-id')\<close> as the reverse
  of the sort by \<open>(k, id)\<close> (ids are primary keys, so the keys are distinct); and the
  id of a created row (auto-increment).\<close>

definition qs_first :: "'a list \<Rightarrow> 'a option" where
  "qs_first xs = (case xs of [] \<Rightarrow> None | x # _ \<Rightarrow> Some x)"

definition first_by_pk :: "('a \<Rightarrow> nat) \<Rightarrow> 'a list \<Rightarrow> 'a option" where
  "first_by_pk pk xs = qs_first (sort_key pk xs)"

definition order_by_desc :: "('a \<Rightarrow> real \<times> nat) \<Rightarrow> 'a list \<Rightarrow> 'a list" where
  "order_by_desc key xs = rev (sort_key key xs)"

definition next_id :: "nat list \<Rightarrow> nat" where
  "next_id ids = Suc (fold max ids 0)"

definition get_bus :: "db \<Rightarrow> nat \<Rightarrow> bus option" where
  "get_bus d i = first_by_pk bus_id (filter (\<lambda>b. bus_id b = i) (bus_tbl d))"

text \<open>\<^verbatim>\<open>BusLiveLocation.objects.filter(bus=bus).order_by('-updated_at', '-id').first()\<close>\<close>

definition latest_location :: "db \<Rightarrow> nat \<Rightarrow> live_location option" where
  "latest_location d i =
     qs_first (order_by_desc (\<lambda>l. (updated_at l, loc_id l))
              (filter (\<lambda>l. loc_bus l = i) (location_tbl d)))"

subsection \<open>distance_meters in double arithmetic\<close>

text \<open>
  The interpreter evaluates \<^verbatim>\<open>distance_meters\<close> in double arithmetic, where every
  operation rounds and the haversine term \<^verbatim>\<open>a\<close> can come out above 1; then
  \<^verbatim>\<open>math.sqrt(1 - a)\<close> raises \<^verbatim>\<open>ValueError\<close> (math domain error). The operations are the
  parameter \<open>fl\<close>: the four arithmetic operations, \<^verbatim>\<open>x ** 2\<close>, \<^verbatim>\<open>math.radians\<close>,
  \<^verbatim>\<open>math.sin\<close>, \<^verbatim>\<open>math.cos\<close>, \<^verbatim>\<open>math.sqrt\<close> on a non-negative argument and
  \<^verbatim>\<open>math.atan2\<close>. What is proved for every \<open>fl\<close> holds for the operations of the
  machine. \<open>exact_ops\<close> are the operations without rounding, under which the function
  is \<open>distance_meters\<close> above. Infinities and NaN are not represented: latitudes and
  longitudes are finite.
\<close>

record float_ops =
  f_add :: "real \<Rightarrow> real \<Rightarrow> real"
  f_sub :: "real \<Rightarrow> real \<Rightarrow> real"
  f_mul :: "real \<Rightarrow> real \<Rightarrow> real"
  f_div :: "real \<Rightarrow> real \<Rightarrow> real"
  f_sq :: "real \<Rightarrow> real"
  f_radians :: "real \<Rightarrow> real"
  f_sin :: "real \<Rightarrow> real"
  f_cos :: "real \<Rightarrow> real"
  f_sqrt :: "real \<Rightarrow> real"
  f_atan2 :: "real \<Rightarrow> real \<Rightarrow> real"

definition exact_ops :: float_ops where
  "exact_ops =
     \<lparr>f_add = (+), f_sub = (-), f_mul = (*), f_div = (/), f_sq = (\<lambda>x. x\<^sup>2),
      f_radians = radians, f_sin = sin, f_cos = cos, f_sqrt = sqrt, f_atan2 = atan2\<rparr>"

definition py_sqrt :: "float_ops \<Rightarrow> real \<Rightarrow> py_exception + real" where
  "py_sqrt fl x = (if x < 0 then Inl ValueError else Inr (f_sqrt fl x))"

definition haversine_a_fl :: "float_ops \<Rightarrow> real \<Rightarrow> real \<Rightarrow> real \<Rightarrow> real \<Rightarrow> real" where
  "haversine_a_fl fl lat1 lon1 lat2 lon2 =
     (let phi1 = f_radians fl lat1;
          phi2 = f_radians fl lat2;
          dphi = f_radians fl (f_sub fl lat2 lat1);
          dlambda = f_radians fl (f_sub fl lon2 lon1)
      in f_add fl (f_sq fl (f_sin fl (f_div fl dphi 2)))
           (f_mul fl (f_mul fl (f_cos fl phi1) (f_cos fl phi2))
                     (f_sq fl (f_sin fl (f_div fl dlambda 2)))))"

definition distance_meters_fl ::
  "float_ops \<Rightarrow> real \<Rightarrow> real \<Rightarrow> real \<Rightarrow> real \<Rightarrow> py_exception + real" where
  "distance_meters_fl fl lat1 lon1 lat2 lon2 =
     (let R = 6371000;
          a = haversine_a_fl fl lat1 lon1 lat2 lon2
      in case py_sqrt fl a of
           Inl ex \<Rightarrow> Inl ex
         | Inr y \<Rightarrow>
             (case py_sqrt fl (f_sub fl 1 a) of
                Inl ex \<Rightarrow> Inl ex
              | Inr x \<Rightarrow> Inr (f_mul fl R (f_mul fl 2 (f_atan2 fl y x)))))"

abbreviation pos_dist_fl :: "float_ops \<Rightarrow> real \<Rightarrow> real \<Rightarrow> stop \<Rightarrow> py_exception + real" where
  "pos_dist_fl fl lat lng s \<equiv> distance_meters_fl fl lat lng (stop_lat s) (stop_lng s)"

abbreviation stop_dist_fl :: "float_ops \<Rightarrow> stop \<Rightarrow> stop \<Rightarrow> py_exception + real" where
  "stop_dist_fl fl a b \<equiv> distance_meters_fl fl (stop_lat a) (stop_lng a) (stop_lat b) (stop_lng b)"

text \<open>\<^verbatim>\<open>_route_remaining_distance_m\<close> as the interpreter evaluates it: the same statements
  as \<open>route_remaining_distance_m\<close>, where a distance can raise and \<^verbatim>\<open>path += ...\<close> is
  a double addition.\<close>

fun path_loop_fl :: "float_ops \<Rightarrow> stop \<Rightarrow> stop list \<Rightarrow> real \<Rightarrow> py_exception + real" where
  "path_loop_fl fl prev [] path = Inr path"
| "path_loop_fl fl prev (s # ss) path =
     (case stop_dist_fl fl prev s of
        Inl ex \<Rightarrow> Inl ex
      | Inr x \<Rightarrow> path_loop_fl fl s ss (f_add fl path x))"

definition route_remaining_distance_fl ::
  "float_ops \<Rightarrow> stop list \<Rightarrow> bus \<Rightarrow> real \<Rightarrow> real \<Rightarrow>
     py_exception + stop option \<times> real option \<times> real option" where
  "route_remaining_distance_fl fl tbl b lat lng =
     (case route_stops tbl (bus_route b) of
        [] \<Rightarrow> Inr (None, None, None)
      | first # rest \<Rightarrow>
          (case current_of b (first # rest) of
             None \<Rightarrow>
               (let next_stop = first in
                case pos_dist_fl fl lat lng next_stop of
                  Inl ex \<Rightarrow> Inl ex
                | Inr remaining \<Rightarrow> Inr (Some next_stop, Some remaining, Some remaining))
           | Some current \<Rightarrow>
               (case filter (\<lambda>s. stop_order s > stop_order current) (first # rest) of
                  [] \<Rightarrow> Inr (None, Some 0, Some 0)
                | next_stop # others \<Rightarrow>
                    (case pos_dist_fl fl lat lng next_stop of
                       Inl ex \<Rightarrow> Inl ex
                     | Inr dist_to_next \<Rightarrow>
                         (case path_loop_fl fl next_stop others dist_to_next of
                            Inl ex \<Rightarrow> Inl ex
                          | Inr path \<Rightarrow> Inr (Some next_stop, Some dist_to_next, Some path))))))"

subsection \<open>_estimate_speed_mps\<close>

definition estimate_speed_mps ::
  "float_ops \<Rightarrow> real option \<Rightarrow> real option \<Rightarrow> real option \<Rightarrow> real \<Rightarrow> real \<Rightarrow> real \<Rightarrow>
     py_exception + real" where
  "estimate_speed_mps fl prev_lat prev_lng prev_time lat lng now_time =
     (case (prev_lat, prev_lng, prev_time) of
        (Some plat, Some plng, Some ptime) \<Rightarrow>
          (let dt = now_time - ptime in
           if dt \<le> 0.5 \<or> dt > 120 then Inr 0
           else
             (case distance_meters_fl fl plat plng lat lng of
                Inl ex \<Rightarrow> Inl ex
              | Inr d \<Rightarrow> if d < 0 then Inr 0 else Inr (f_div fl d dt)))
      | _ \<Rightarrow> Inr 0)"

subsection \<open>update_bus_location\<close>

text \<open>
  The payload is a JSON object or a form post. A value of one of the five keys is a
  JSON number, a non-empty string that \<^verbatim>\<open>float\<close> converts to a number (every value of
  a form post is a string), a non-empty string that \<^verbatim>\<open>float\<close> rejects, or the empty
  string; \<open>None\<close> is a key that is absent or \<^verbatim>\<open>null\<close> (a string such as \<^verbatim>\<open>'nan'\<close>, which
  \<^verbatim>\<open>float\<close> converts to a value that is not finite, is not modelled). The number 0 and the empty
  string count as false in Python, so that
  \<^verbatim>\<open>payload.get('lat') or payload.get('latitude')\<close> takes the second value for them.
  A request reads the clock more than once; the model has the single reading \<open>now\<close>,
  also for the \<^verbatim>\<open>auto_now\<close> column. The view is not wrapped in a transaction (Django
  commits each query by default): the rows written before an exception stay written.
\<close>

datatype field = Number real | Parsed real | Rejected | Empty

record payload =
  p_lat :: "field option"
  p_latitude :: "field option"
  p_lng :: "field option"
  p_longitude :: "field option"
  p_speed :: "field option"

definition truthy :: "field \<Rightarrow> bool" where
  "truthy f = (case f of Number v \<Rightarrow> v \<noteq> 0 | Parsed v \<Rightarrow> True | Rejected \<Rightarrow> True | Empty \<Rightarrow> False)"

definition py_or :: "field option \<Rightarrow> field option \<Rightarrow> field option" where
  "py_or x y = (case x of Some f \<Rightarrow> if truthy f then Some f else y | None \<Rightarrow> y)"

definition py_float :: "field \<Rightarrow> real option" where
  "py_float f = (case f of Number v \<Rightarrow> Some v | Parsed v \<Rightarrow> Some v | Rejected \<Rightarrow> None | Empty \<Rightarrow> None)"

text \<open>\<^verbatim>\<open>if lat is None or lng is None\<close>, and the \<^verbatim>\<open>try\<close> block with the three conversions
  \<^verbatim>\<open>float(lat)\<close>, \<^verbatim>\<open>float(lng)\<close> and \<^verbatim>\<open>float(speed or 0)\<close>, where
  \<^verbatim>\<open>speed = payload.get('speed', 0)\<close>: \<open>None\<close> when one of them raises.\<close>

definition coords_present :: "payload \<Rightarrow> bool" where
  "coords_present p \<longleftrightarrow>
     py_or (p_lat p) (p_latitude p) \<noteq> None \<and> py_or (p_lng p) (p_longitude p) \<noteq> None"

definition payload_floats :: "payload \<Rightarrow> (real \<times> real \<times> real) option" where
  "payload_floats p =
     (case (py_or (p_lat p) (p_latitude p), py_or (p_lng p) (p_longitude p)) of
        (Some lat, Some lng) \<Rightarrow>
          (case (py_float lat, py_float lng,
                 (case p_speed p of
                    None \<Rightarrow> Some 0
                  | Some speed \<Rightarrow> if truthy speed then py_float speed else Some 0)) of
             (Some lat_f, Some lng_f, Some speed_f) \<Rightarrow> Some (lat_f, lng_f, speed_f)
           | _ \<Rightarrow> None)
      | _ \<Rightarrow> None)"

text \<open>The scan for the nearest stop, with \<^verbatim>\<open>nearest_stop\<close> and \<^verbatim>\<open>nearest_dist\<close> as one
  optional pair (they are \<^verbatim>\<open>None\<close> together).\<close>

fun nearest_loop ::
  "float_ops \<Rightarrow> real \<Rightarrow> real \<Rightarrow> stop list \<Rightarrow> (stop \<times> real) option \<Rightarrow>
     py_exception + (stop \<times> real) option" where
  "nearest_loop fl lat lng [] nearest = Inr nearest"
| "nearest_loop fl lat lng (s # ss) nearest =
     (case pos_dist_fl fl lat lng s of
        Inl ex \<Rightarrow> Inl ex
      | Inr dist_m \<Rightarrow>
          nearest_loop fl lat lng ss
            (case nearest of
               None \<Rightarrow> Some (s, dist_m)
             | Some (nearest_stop, nearest_dist) \<Rightarrow>
                 if dist_m < nearest_dist then Some (s, dist_m) else nearest))"

definition save_current_stop :: "db \<Rightarrow> bus \<Rightarrow> db" where
  "save_current_stop d b =
     d\<lparr>bus_tbl := map (\<lambda>r. if bus_id r = bus_id b then r\<lparr>current_stop := current_stop b\<rparr> else r)
                        (bus_tbl d),
       sql_log := sql_log d @ [BusUpdate (bus_id b)]\<rparr>"

definition save_location :: "db \<Rightarrow> live_location \<Rightarrow> db" where
  "save_location d l =
     d\<lparr>location_tbl :=
         map (\<lambda>r. if loc_id r = loc_id l
                  then r\<lparr>loc_lat := loc_lat l, loc_lng := loc_lng l, loc_speed := loc_speed l,
                         updated_at := updated_at l\<rparr>
                  else r) (location_tbl d),
       sql_log := sql_log d @ [LocationUpdate (loc_id l)]\<rparr>"

definition create_location :: "db \<Rightarrow> nat \<Rightarrow> real \<Rightarrow> real \<Rightarrow> real \<Rightarrow> real \<Rightarrow> db" where
  "create_location d b lat lng speed now =
     (let i = next_id (map loc_id (location_tbl d)) in
      d\<lparr>location_tbl := location_tbl d @
           [\<lparr>loc_id = i, loc_bus = b, loc_lat = lat, loc_lng = lng, loc_speed = speed,
             updated_at = now\<rparr>],
        sql_log := sql_log d @ [LocationInsert i]\<rparr>)"

text \<open>The part of the view that stores the reading (the latest row of the bus is
  overwritten, or the first row created), with the speed estimated when none is given.
  \<^verbatim>\<open>_estimate_speed_mps\<close> is called before \<^verbatim>\<open>loc.save\<close>: when it raises, nothing is
  written.\<close>

definition store_reading ::
  "float_ops \<Rightarrow> db \<Rightarrow> nat \<Rightarrow> real \<Rightarrow> real \<Rightarrow> real \<Rightarrow> real \<Rightarrow> py_exception + db" where
  "store_reading fl d bid lat_f lng_f speed_f now =
     (let loc = latest_location d bid;
          prev_lat = map_option loc_lat loc;
          prev_lng = map_option loc_lng loc;
          prev_time = map_option updated_at loc
      in (case loc of
            Some l \<Rightarrow>
              (case (if speed_f \<le> 0 \<and> prev_time \<noteq> None
                     then estimate_speed_mps fl prev_lat prev_lng prev_time lat_f lng_f now
                     else Inr speed_f) of
                 Inl ex \<Rightarrow> Inl ex
               | Inr speed_f \<Rightarrow>
                   Inr (save_location d
                          (l\<lparr>loc_lat := lat_f, loc_lng := lng_f, loc_speed := speed_f,
                             updated_at := now\<rparr>)))
          | None \<Rightarrow>
              (let speed_f = (if speed_f \<le> 0 then 0 else speed_f)
               in Inr (create_location d bid lat_f lng_f speed_f now))))"

text \<open>The part of the view that recomputes the current stop.\<close>

definition snap_current_stop ::
  "float_ops \<Rightarrow> db \<Rightarrow> bus \<Rightarrow> real \<Rightarrow> real \<Rightarrow> py_exception + db" where
  "snap_current_stop fl d b lat_f lng_f =
     (let stops = filter (\<lambda>s. stop_route s = bus_route b) (stop_tbl d) in
      case nearest_loop fl lat_f lng_f stops None of
        Inl ex \<Rightarrow> Inl ex
      | Inr (Some (nearest_stop, nearest_dist)) \<Rightarrow>
          if nearest_dist < 50 \<and> current_stop b \<noteq> Some (stop_name nearest_stop)
          then Inr (save_current_stop d (b\<lparr>current_stop := Some (stop_name nearest_stop)\<rparr>))
          else Inr d
      | Inr None \<Rightarrow> Inr d)"

text \<open>The view, from the payload on: the outcome and the database it leaves.\<close>

definition update_bus_location ::
  "float_ops \<Rightarrow> db \<Rightarrow> nat \<Rightarrow> payload \<Rightarrow> real \<Rightarrow> unit view_result \<times> db" where
  "update_bus_location fl d bid p now =
     (if \<not> coords_present p then (Error BadRequest, d)
      else
        (case get_bus d bid of
           None \<Rightarrow> (Error NotFound, d)
         | Some b \<Rightarrow>
             (case payload_floats p of
                None \<Rightarrow> (Error BadRequest, d)
              | Some (lat_f, lng_f, speed_f) \<Rightarrow>
                  if \<not> (-90 \<le> lat_f \<and> lat_f \<le> 90 \<and> -180 \<le> lng_f \<and> lng_f \<le> 180)
                  then (Error BadRequest, d)
                  else
                    (let speed_f = (if speed_f < 0 then 0 else speed_f) in
                     case store_reading fl d bid lat_f lng_f speed_f now of
                       Inl ex \<Rightarrow> (Exception ex, d)
                     | Inr d1 \<Rightarrow>
                         (case snap_current_stop fl d1 b lat_f lng_f of
                            Inl ex \<Rightarrow> (Exception ex, d1)
                          | Inr d2 \<Rightarrow> (Response (), d2))))))"


subsection \<open>get_bus_location\<close>

text \<open>\<^verbatim>\<open>int(x)\<close> truncates towards zero; \<^verbatim>\<open>round(x)\<close> with one argument rounds to the
  nearest integer, a tie to the even one.\<close>

definition py_int :: "real \<Rightarrow> int" where
  "py_int x = (if 0 \<le> x then \<lfloor>x\<rfloor> else \<lceil>x\<rceil>)"

definition py_round :: "real \<Rightarrow> int" where
  "py_round x =
     (let f = \<lfloor>x\<rfloor>; r = x - of_int f in
      if r < 1 / 2 then f
      else if 1 / 2 < r then f + 1
      else if even f then f else f + 1)"

record location_response =
  resp_lat :: real
  resp_lng :: real
  resp_speed :: real
  resp_time :: real
  resp_current_stop :: "string option"
  resp_next_stop :: "string option"
  eta_seconds :: "int option"
  eta_minutes :: "int option"

definition get_bus_location :: "float_ops \<Rightarrow> db \<Rightarrow> nat \<Rightarrow> location_response view_result" where
  "get_bus_location fl d bid =
     (case get_bus d bid of
        None \<Rightarrow> Error NotFound
      | Some b \<Rightarrow>
          (case latest_location d bid of
             None \<Rightarrow> Error NotFound
           | Some location \<Rightarrow>
               (case route_remaining_distance_fl fl (stop_tbl d) b (loc_lat location) (loc_lng location) of
                  Inl ex \<Rightarrow> Exception ex
                | Inr (next_stop_obj, dist_to_next_m, remaining_path_m) \<Rightarrow>
                    (let next_stop = map_option stop_name next_stop_obj;
                         speed_mps = loc_speed location;
                         eta = (case (next_stop_obj, dist_to_next_m) of
                                  (Some _, Some dist_to_next) \<Rightarrow>
                                    if speed_mps \<ge> 0.5
                                    then (let eta_seconds = py_int (f_div fl dist_to_next speed_mps);
                                              eta_minutes = py_round (f_div fl (of_int eta_seconds) 60)
                                          in (Some eta_seconds, Some eta_minutes))
                                    else (None, None)
                                | _ \<Rightarrow> (None, None))
                     in Response \<lparr>resp_lat = loc_lat location, resp_lng = loc_lng location,
                                  resp_speed = loc_speed location, resp_time = updated_at location,
                                  resp_current_stop = current_stop b, resp_next_stop = next_stop,
                                  eta_seconds = fst eta, eta_minutes = snd eta\<rparr>))))"

subsection \<open>decimal.Decimal under the default context\<close>

text \<open>
  \<open>Dec s c e\<close> is the finite decimal \<open>(-1)\<^sup>s \<times> c \<times> 10\<^sup>e\<close> (\<^verbatim>\<open>_sign\<close>, \<^verbatim>\<open>_int\<close>, \<^verbatim>\<open>_exp\<close>);
  \<open>Infinity s\<close> is a signed infinity and \<open>NaN\<close> the quiet not-a-number. The default context
  has \<^verbatim>\<open>prec=28\<close>, \<^verbatim>\<open>rounding=ROUND_HALF_EVEN\<close> and traps \<^verbatim>\<open>InvalidOperation\<close>,
  \<^verbatim>\<open>DivisionByZero\<close> and \<^verbatim>\<open>Overflow\<close>. Its exponent limits (\<^verbatim>\<open>Emax=999999\<close>,
  \<^verbatim>\<open>Emin=-999999\<close>) are not modelled: the decimals computed from the \<^verbatim>\<open>str\<close> of a float
  have exponents of a few hundred at most.
\<close>

datatype decimal = Dec bool nat int | Infinity bool | NaN

definition prec :: nat where
  "prec = 28"

text \<open>\<^verbatim>\<open>len(self._int)\<close>: the coefficient zero is the string \<^verbatim>\<open>'0'\<close>.\<close>

definition ndigits :: "nat \<Rightarrow> nat" where
  "ndigits c = (if c = 0 then 1 else floorlog 10 c)"

text \<open>Dropping the \<open>k\<close> low digits of a coefficient, rounding half-even.\<close>

definition round_half_even :: "nat \<Rightarrow> nat \<Rightarrow> nat" where
  "round_half_even c k =
     (let q = c div 10 ^ k; r = c mod 10 ^ k in
      if 10 ^ k < 2 * r \<or> (2 * r = 10 ^ k \<and> odd q) then q + 1 else q)"

text \<open>\<^verbatim>\<open>Decimal._fix\<close>: round to \<open>prec\<close> significant digits.\<close>

definition dec_fix :: "decimal \<Rightarrow> decimal" where
  "dec_fix d =
     (case d of
        Dec s c e \<Rightarrow>
          if ndigits c \<le> prec then d
          else
            (let k = ndigits c - prec; q = round_half_even c k in
             if prec < ndigits q then Dec s (q div 10) (e + int k + 1)
             else Dec s q (e + int k))
      | _ \<Rightarrow> d)"

text \<open>The signed coefficient of a finite decimal at a smaller exponent \<open>m\<close>.\<close>

definition scaled :: "bool \<Rightarrow> nat \<Rightarrow> int \<Rightarrow> int \<Rightarrow> int" where
  "scaled s c e m = (if s then - 1 else 1) * int c * 10 ^ nat (e - m)"

text \<open>\<^verbatim>\<open>a <= b\<close>: an ordering comparison with a NaN signals \<^verbatim>\<open>InvalidOperation\<close>.\<close>

definition dec_le :: "decimal \<Rightarrow> decimal \<Rightarrow> py_exception + bool" where
  "dec_le a b =
     (case (a, b) of
        (NaN, _) \<Rightarrow> Inl InvalidOperation
      | (_, NaN) \<Rightarrow> Inl InvalidOperation
      | (Infinity sa, Infinity sb) \<Rightarrow> Inr (sa \<or> \<not> sb)
      | (Infinity sa, Dec _ _ _) \<Rightarrow> Inr sa
      | (Dec _ _ _, Infinity sb) \<Rightarrow> Inr (\<not> sb)
      | (Dec sa ca ea, Dec sb cb eb) \<Rightarrow>
          (let m = min ea eb in Inr (scaled sa ca ea m \<le> scaled sb cb eb m)))"

definition dec_neg :: "decimal \<Rightarrow> decimal" where
  "dec_neg d = (case d of Dec s c e \<Rightarrow> Dec (\<not> s) c e | Infinity s \<Rightarrow> Infinity (\<not> s) | NaN \<Rightarrow> NaN)"

text \<open>\<^verbatim>\<open>a + b\<close>: the exact sum at the smaller exponent, then \<open>dec_fix\<close>. A zero operand is
  rescaled no further than \<open>prec + 1\<close> digits below the other operand.\<close>

definition dec_add :: "decimal \<Rightarrow> decimal \<Rightarrow> py_exception + decimal" where
  "dec_add a b =
     (case (a, b) of
        (NaN, _) \<Rightarrow> Inr NaN
      | (_, NaN) \<Rightarrow> Inr NaN
      | (Infinity sa, Infinity sb) \<Rightarrow> if sa \<noteq> sb then Inl InvalidOperation else Inr (Infinity sa)
      | (Infinity sa, Dec _ _ _) \<Rightarrow> Inr (Infinity sa)
      | (Dec _ _ _, Infinity sb) \<Rightarrow> Inr (Infinity sb)
      | (Dec sa ca ea, Dec sb cb eb) \<Rightarrow>
          (let expn = min ea eb in
           if ca = 0 \<and> cb = 0 then Inr (dec_fix (Dec (sa \<and> sb) 0 expn))
           else if ca = 0 then
             (let expn = max expn (eb - int prec - 1) in
              Inr (dec_fix (Dec sb (cb * 10 ^ nat (eb - expn)) expn)))
           else if cb = 0 then
             (let expn = max expn (ea - int prec - 1) in
              Inr (dec_fix (Dec sa (ca * 10 ^ nat (ea - expn)) expn)))
           else
             (let n = scaled sa ca ea expn + scaled sb cb eb expn in
              Inr (dec_fix (Dec (n < 0) (nat \<bar>n\<bar>) expn)))))"

definition dec_sub :: "decimal \<Rightarrow> decimal \<Rightarrow> py_exception + decimal" where
  "dec_sub a b = dec_add a (dec_neg b)"

text \<open>The loop of \<^verbatim>\<open>__truediv__\<close> that brings an exact quotient towards the ideal exponent:
  \<^verbatim>\<open>while exp < ideal_exp and coeff % 10 == 0: coeff //= 10; exp += 1\<close>.\<close>

function strip_loop :: "nat \<Rightarrow> int \<Rightarrow> int \<Rightarrow> nat \<times> int" where
  "strip_loop coeff expn ideal_exp =
     (if expn < ideal_exp \<and> coeff mod 10 = 0
      then strip_loop (coeff div 10) (expn + 1) ideal_exp
      else (coeff, expn))"
  by pat_completeness auto
termination
  by (relation "measure (\<lambda>(coeff, expn, ideal_exp). nat (ideal_exp - expn))") auto

definition etiny :: int where
  "etiny = - 999999 - int prec + 1"

definition dec_truediv :: "decimal \<Rightarrow> decimal \<Rightarrow> py_exception + decimal" where
  "dec_truediv a b =
     (case (a, b) of
        (NaN, _) \<Rightarrow> Inr NaN
      | (_, NaN) \<Rightarrow> Inr NaN
      | (Infinity sa, Infinity sb) \<Rightarrow> Inl InvalidOperation
      | (Infinity sa, Dec sb _ _) \<Rightarrow> Inr (Infinity (sa \<noteq> sb))
      | (Dec sa _ _, Infinity sb) \<Rightarrow> Inr (Dec (sa \<noteq> sb) 0 etiny)
      | (Dec sa ca ea, Dec sb cb eb) \<Rightarrow>
          (let sign = (sa \<noteq> sb) in
           if cb = 0 then (if ca = 0 then Inl InvalidOperation else Inl DivisionByZero)
           else if ca = 0 then Inr (dec_fix (Dec sign 0 (ea - eb)))
           else
             (let shift = int (ndigits cb) - int (ndigits ca) + int prec + 1;
                  expn = ea - eb - shift;
                  (coeff, remainder) =
                     (if 0 \<le> shift
                      then ((ca * 10 ^ nat shift) div cb, (ca * 10 ^ nat shift) mod cb)
                      else (ca div (cb * 10 ^ nat (- shift)), ca mod (cb * 10 ^ nat (- shift))));
                  (coeff, expn) =
                     (if remainder \<noteq> 0
                      then (if coeff mod 5 = 0 then coeff + 1 else coeff, expn)
                      else strip_loop coeff expn (ea - eb))
              in Inr (dec_fix (Dec sign coeff expn)))))"

text \<open>\<^verbatim>\<open>to_integral_value(rounding=ROUND_CEILING)\<close>: a decimal with a negative exponent is
  rescaled to exponent 0, a positive one going up when a dropped digit is not zero.\<close>

definition to_integral_value_ceiling :: "decimal \<Rightarrow> decimal" where
  "to_integral_value_ceiling d =
     (case d of
        Dec s c e \<Rightarrow>
          if 0 \<le> e then d
          else
            (let k = nat (- e); q = c div 10 ^ k; r = c mod 10 ^ k in
             Dec s (if \<not> s \<and> r \<noteq> 0 then q + 1 else q) 0)
      | _ \<Rightarrow> d)"

text \<open>\<^verbatim>\<open>int(d)\<close> and \<^verbatim>\<open>Decimal(n)\<close> for an integer \<open>n\<close>.\<close>

definition int_of_decimal :: "decimal \<Rightarrow> py_exception + int" where
  "int_of_decimal d =
     (case d of
        NaN \<Rightarrow> Inl ValueError
      | Infinity _ \<Rightarrow> Inl OverflowError
      | Dec s c e \<Rightarrow>
          Inr ((if s then - 1 else 1) *
               (if 0 \<le> e then int c * 10 ^ nat e else int (c div 10 ^ nat (- e)))))"

definition decimal_of_int :: "int \<Rightarrow> decimal" where
  "decimal_of_int n = Dec (n < 0) (nat \<bar>n\<bar>) 0"

text \<open>\<^verbatim>\<open>d.quantize(q)\<close>: \<open>d\<close> at the exponent of \<open>q\<close>; \<^verbatim>\<open>InvalidOperation\<close> when the result
  would have more than \<open>prec\<close> digits.\<close>

definition quantize :: "decimal \<Rightarrow> decimal \<Rightarrow> py_exception + decimal" where
  "quantize d q =
     (case (d, q) of
        (NaN, _) \<Rightarrow> Inr NaN
      | (_, NaN) \<Rightarrow> Inr NaN
      | (Infinity s, Infinity _) \<Rightarrow> Inr (Infinity s)
      | (Infinity _, Dec _ _ _) \<Rightarrow> Inl InvalidOperation
      | (Dec _ _ _, Infinity _) \<Rightarrow> Inl InvalidOperation
      | (Dec s c e, Dec _ _ eq) \<Rightarrow>
          if c = 0 then Inr (Dec s 0 eq)
          else if int prec < int (ndigits c) + e - 1 - eq + 1 then Inl InvalidOperation
          else
            (let ans = (if eq \<le> e then c * 10 ^ nat (e - eq)
                        else round_half_even c (nat (eq - e)))
             in if prec < ndigits ans then Inl InvalidOperation else Inr (Dec s ans eq)))"

subsection \<open>_fare_from_distance_m\<close>

text \<open>
  The argument is used through \<^verbatim>\<open>Decimal(str(distance_m))\<close> only, so it is represented
  by what \<^verbatim>\<open>str\<close> prints: \<open>Float s c e\<close> is a finite float whose \<^verbatim>\<open>str\<close> is the numeral
  \<open>(-1)\<^sup>s \<times> c \<times> 10\<^sup>e\<close> (the shortest repr, at most 17 significant digits: \<^verbatim>\<open>2400.0\<close> is
  \<open>Float False 24000 (-1)\<close>, \<^verbatim>\<open>1e+30\<close> is \<open>Float False 1 30\<close>), \<open>FloatInf s\<close> prints
  \<^verbatim>\<open>inf\<close> or \<^verbatim>\<open>-inf\<close>, \<open>FloatNaN\<close> prints \<^verbatim>\<open>nan\<close>, and \<open>NotNumeric\<close> is any object whose
  \<^verbatim>\<open>str\<close> the constructor rejects (\<^verbatim>\<open>None\<close>, \<^verbatim>\<open>'abc'\<close>).
\<close>

datatype distance_arg = Float bool nat int | FloatInf bool | FloatNaN | NotNumeric

definition float_repr :: "nat \<Rightarrow> int \<Rightarrow> bool" where
  "float_repr c e \<longleftrightarrow> c < 10 ^ 17 \<and> - 400 \<le> e \<and> e \<le> 400"

definition decimal_of_str :: "distance_arg \<Rightarrow> py_exception + decimal" where
  "decimal_of_str x =
     (case x of
        Float s c e \<Rightarrow> Inr (Dec s c e)
      | FloatInf s \<Rightarrow> Inr (Infinity s)
      | FloatNaN \<Rightarrow> Inr NaN
      | NotNumeric \<Rightarrow> Inl InvalidOperation)"

definition fare_from_distance_m :: "distance_arg \<Rightarrow> py_exception + decimal" where
  "fare_from_distance_m distance_m =
     (let base_km = Dec False 25 (- 1);
          base_fare = Dec False 10 0
      in
        (case (case decimal_of_str distance_m of
                 Inl ex \<Rightarrow> Inl ex
               | Inr x \<Rightarrow> dec_truediv x (Dec False 1000 0)) of
           Inl _ \<Rightarrow> Inr base_fare
         | Inr km \<Rightarrow>
             (case dec_le km base_km of
                Inl ex \<Rightarrow> Inl ex
              | Inr True \<Rightarrow> Inr base_fare
              | Inr False \<Rightarrow>
                  (case dec_sub km base_km of
                     Inl ex \<Rightarrow> Inl ex
                   | Inr extra_km \<Rightarrow>
                       (case int_of_decimal (to_integral_value_ceiling extra_km) of
                          Inl ex \<Rightarrow> Inl ex
                        | Inr extra_units \<Rightarrow>
                            (case dec_add base_fare (decimal_of_int extra_units) of
                               Inl ex \<Rightarrow> Inl ex
                             | Inr fare \<Rightarrow> quantize fare (Dec False 1 (- 2))))))))"

text \<open>The number that the numeral \<open>(-1)\<^sup>s \<times> c \<times> 10\<^sup>e\<close> denotes.\<close>

definition dec_value :: "bool \<Rightarrow> nat \<Rightarrow> int \<Rightarrow> real" where
  "dec_value s c e = (if s then - 1 else 1) * real c * 10 powi e"

subsection \<open>Driver access and trips\<close>

definition create_assignment :: "db \<Rightarrow> nat \<Rightarrow> nat \<Rightarrow> real \<Rightarrow> db" where
  "create_assignment d u b now =
     (let i = next_id (map asg_id (assignment_tbl d)) in
      d\<lparr>assignment_tbl := assignment_tbl d @
           [\<lparr>asg_id = i, asg_user = u, asg_bus = b, asg_active = True, asg_start_time = now,
             asg_end_time = None\<rparr>],
        sql_log := sql_log d @ [AssignmentInsert i]\<rparr>)"

text \<open>\<^verbatim>\<open>_driver_can_access_bus\<close>: the answer and the database, to which the two
  backward-compatible branches add an assignment.\<close>

definition driver_can_access_bus :: "db \<Rightarrow> user \<Rightarrow> bus \<Rightarrow> real \<Rightarrow> bool \<times> db" where
  "driver_can_access_bus d u b now =
     (if user_role u = Admin then (True, d)
      else if filter (\<lambda>a. asg_user a = user_id u \<and> asg_bus a = bus_id b \<and> asg_active a \<and>
                          asg_end_time a = None) (assignment_tbl d) \<noteq> []
      then (True, d)
      else
        (case first_by_pk reg_id (filter (\<lambda>r. reg_user r = user_id u) (registration_tbl d)) of
           Some reg \<Rightarrow>
             if bus_otp reg = otp_code b then (True, create_assignment d (user_id u) (bus_id b) now)
             else if operator_name b = username u
             then (True, create_assignment d (user_id u) (bus_id b) now)
             else (False, d)
         | None \<Rightarrow>
             if operator_name b = username u
             then (True, create_assignment d (user_id u) (bus_id b) now)
             else (False, d)))"

text \<open>\<^verbatim>\<open>BusTrip.objects.filter(bus=bus, end_time__isnull=True)
  .order_by('-start_time', '-id').first()\<close>\<close>

definition open_trip_of :: "db \<Rightarrow> nat \<Rightarrow> bus_trip option" where
  "open_trip_of d b =
     qs_first (order_by_desc (\<lambda>t. (start_time t, trip_id t))
                 (filter (\<lambda>t. trip_bus t = b \<and> end_time t = None) (trip_tbl d)))"

text \<open>\<^verbatim>\<open>open_trip.save(update_fields=['end_time'])\<close> and \<^verbatim>\<open>BusTrip.objects.create\<close>.\<close>

definition save_trip_end_time :: "db \<Rightarrow> bus_trip \<Rightarrow> db" where
  "save_trip_end_time d t =
     d\<lparr>trip_tbl := map (\<lambda>r. if trip_id r = trip_id t then r\<lparr>end_time := end_time t\<rparr> else r)
                         (trip_tbl d),
       sql_log := sql_log d @ [TripUpdate (trip_id t)]\<rparr>"

definition create_trip :: "db \<Rightarrow> nat \<Rightarrow> real \<Rightarrow> real option \<Rightarrow> bus_trip \<times> db" where
  "create_trip d b start end_t =
     (let i = next_id (map trip_id (trip_tbl d));
          t = \<lparr>trip_id = i, trip_bus = b, start_time = start, end_time = end_t\<rparr>
      in (t, d\<lparr>trip_tbl := trip_tbl d @ [t], sql_log := sql_log d @ [TripInsert i]\<rparr>))"

text \<open>\<^verbatim>\<open>bus.save(update_fields=[...])\<close> for the trip columns: \<open>upd\<close> copies the named
  fields into the stored row.\<close>

definition save_bus :: "db \<Rightarrow> nat \<Rightarrow> (bus \<Rightarrow> bus) \<Rightarrow> db" where
  "save_bus d b upd =
     d\<lparr>bus_tbl := map (\<lambda>r. if bus_id r = b then upd r else r) (bus_tbl d),
       sql_log := sql_log d @ [BusUpdate b]\<rparr>"

text \<open>The backward-compatible creation of a trip row from the flags
  \<^verbatim>\<open>trip_active\<close> and \<^verbatim>\<open>trip_start_time\<close>, shared by \<^verbatim>\<open>driver_dashboard\<close>,
  \<^verbatim>\<open>end_trip\<close> and \<^verbatim>\<open>driver_trip_summary\<close>:
  \<^verbatim>\<open>start_time = bus.trip_start_time or now\<close>, the flag column saved when it was null,
  then \<^verbatim>\<open>BusTrip.objects.create(bus=bus, start_time=start_time[, end_time=now])\<close>.\<close>

definition backfill_trip :: "db \<Rightarrow> bus \<Rightarrow> real \<Rightarrow> real option \<Rightarrow> bus_trip \<times> db" where
  "backfill_trip d b now end_t =
     (let start = (case trip_start_time b of Some t \<Rightarrow> t | None \<Rightarrow> now);
          d1 = (if trip_start_time b = None
                then save_bus d (bus_id b) (\<lambda>r. r\<lparr>trip_start_time := Some start\<rparr>)
                else d)
      in create_trip d1 (bus_id b) start end_t)"

definition start_trip :: "db \<Rightarrow> user \<Rightarrow> nat \<Rightarrow> real \<Rightarrow> db" where
  "start_trip d u bid now =
     (case get_bus d bid of
        None \<Rightarrow> d
      | Some b \<Rightarrow>
          (case driver_can_access_bus d u b now of
             (False, d1) \<Rightarrow> d1
           | (True, d1) \<Rightarrow>
               (let d2 = (case open_trip_of d1 (bus_id b) of
                            Some open_trip \<Rightarrow> save_trip_end_time d1 (open_trip\<lparr>end_time := Some now\<rparr>)
                          | None \<Rightarrow> d1);
                    (trip, d3) = create_trip d2 (bus_id b) now None
                in save_bus d3 (bus_id b)
                     (\<lambda>r. r\<lparr>trip_active := True, trip_start_time := Some (start_time trip)\<rparr>))))"

definition end_trip :: "db \<Rightarrow> user \<Rightarrow> nat \<Rightarrow> real \<Rightarrow> db" where
  "end_trip d u bid now =
     (case get_bus d bid of
        None \<Rightarrow> d
      | Some b \<Rightarrow>
          (case driver_can_access_bus d u b now of
             (False, d1) \<Rightarrow> d1
           | (True, d1) \<Rightarrow>
               (let d2 = (case open_trip_of d1 (bus_id b) of
                            Some open_trip \<Rightarrow> save_trip_end_time d1 (open_trip\<lparr>end_time := Some now\<rparr>)
                          | None \<Rightarrow>
                              if trip_active b then snd (backfill_trip d1 b now (Some now)) else d1)
                in save_bus d2 (bus_id b) (\<lambda>r. r\<lparr>trip_active := False\<rparr>))))"

text \<open>\<^verbatim>\<open>driver_dashboard\<close>: the bus of the driver (the active assignment, else the two
  backward-compatible lookups, each recording an assignment), then the lazy trip row.
  What follows in the view only reads.\<close>

definition dashboard_bus :: "db \<Rightarrow> user \<Rightarrow> real \<Rightarrow> bus option \<times> db" where
  "dashboard_bus d u now =
     (let assignment =
            qs_first (order_by_desc (\<lambda>a. (asg_start_time a, asg_id a))
                        (filter (\<lambda>a. asg_user a = user_id u \<and> asg_active a \<and> asg_end_time a = None)
                                (assignment_tbl d)));
          b = (case assignment of Some a \<Rightarrow> get_bus d (asg_bus a) | None \<Rightarrow> None)
      in
        (case b of
           Some _ \<Rightarrow> (b, d)
         | None \<Rightarrow>
             (let reg = qs_first (order_by_desc (\<lambda>r. (reg_created_at r, reg_id r))
                                    (filter (\<lambda>r. reg_user r = user_id u) (registration_tbl d)));
                  b1 = (case reg of
                          Some r \<Rightarrow> first_by_pk bus_id (filter (\<lambda>x. otp_code x = bus_otp r) (bus_tbl d))
                        | None \<Rightarrow> None)
              in
                (case b1 of
                   Some x \<Rightarrow> (b1, create_assignment d (user_id u) (bus_id x) now)
                 | None \<Rightarrow>
                     (case first_by_pk bus_id (filter (\<lambda>x. operator_name x = username u) (bus_tbl d)) of
                        Some x \<Rightarrow> (Some x, create_assignment d (user_id u) (bus_id x) now)
                      | None \<Rightarrow> (None, d))))))"

definition driver_dashboard :: "db \<Rightarrow> user \<Rightarrow> real \<Rightarrow> db" where
  "driver_dashboard d u now =
     (case dashboard_bus d u now of
        (None, d1) \<Rightarrow> d1
      | (Some b, d1) \<Rightarrow>
          if trip_active b then
            (case open_trip_of d1 (bus_id b) of
               Some active_trip \<Rightarrow> d1
             | None \<Rightarrow> snd (backfill_trip d1 b now None))
          else d1)"

definition driver_trip_summary :: "db \<Rightarrow> user \<Rightarrow> nat \<Rightarrow> real \<Rightarrow> http_error + db" where
  "driver_trip_summary d u bid now =
     (case get_bus d bid of
        None \<Rightarrow> Inl NotFound
      | Some b \<Rightarrow>
          (case driver_can_access_bus d u b now of
             (False, d1) \<Rightarrow> Inl Forbidden
           | (True, d1) \<Rightarrow>
               (case open_trip_of d1 (bus_id b) of
                  Some active_trip \<Rightarrow> Inr d1
                | None \<Rightarrow>
                    if trip_active b then Inr (snd (backfill_trip d1 b now None)) else Inr d1)))"

text \<open>The number of open trips (rows with a null \<^verbatim>\<open>end_time\<close>) of a bus.\<close>

definition open_trips :: "db \<Rightarrow> nat \<Rightarrow> bus_trip list" where
  "open_trips d b = filter (\<lambda>t. trip_bus t = b \<and> end_time t = None) (trip_tbl d)"

definition at_most_one_open_trip :: "db \<Rightarrow> bool" where
  "at_most_one_open_trip d \<longleftrightarrow> (\<forall>b. length (open_trips d b) \<le> 1)"

text \<open>For the statements about the trip table: the table in which the row with the
  primary key \<open>i\<close> has its \<^verbatim>\<open>end_time\<close> set to \<open>now\<close>, the row that a creation adds to
  the table \<open>ts\<close> (its id is the next one), and \<^verbatim>\<open>bus.trip_start_time or now\<close>.\<close>

definition closed_at :: "nat \<Rightarrow> real \<Rightarrow> bus_trip list \<Rightarrow> bus_trip list" where
  "closed_at i now ts = map (\<lambda>r. if trip_id r = i then r\<lparr>end_time := Some now\<rparr> else r) ts"

definition new_trip :: "bus_trip list \<Rightarrow> nat \<Rightarrow> real \<Rightarrow> real option \<Rightarrow> bus_trip" where
  "new_trip ts b start end_t =
     \<lparr>trip_id = next_id (map trip_id ts), trip_bus = b, start_time = start, end_time = end_t\<rparr>"

definition flag_start :: "bus \<Rightarrow> real \<Rightarrow> real" where
  "flag_start b now = (case trip_start_time b of Some t \<Rightarrow> t | None \<Rightarrow> now)"

text \<open>A database for the examples: the route and the bus of \<^verbatim>\<open>tests.py\<close>, the bus on a
  trip with one open trip row, and a driver assigned to it.\<close>

definition test_driver :: user where
  "test_driver = \<lparr>user_id = 2, username = ''d1'', user_role = Driver\<rparr>"

definition test_db :: db where
  "test_db =
     \<lparr>stop_tbl = test_stops,
      bus_tbl = [(test_bus None)\<lparr>trip_active := True, trip_start_time := Some 0\<rparr>],
      location_tbl = [],
      trip_tbl = [\<lparr>trip_id = 1, trip_bus = 1, start_time = 0, end_time = None\<rparr>],
      registration_tbl = [],
      assignment_tbl = [\<lparr>asg_id = 1, asg_user = 2, asg_bus = 1, asg_active = True,
                         asg_start_time = 0, asg_end_time = None\<rparr>],
      sql_log = []\<rparr>"

definition test_location :: live_location where
  "test_location =
     \<lparr>loc_id = 1, loc_bus = 1, loc_lat = 0, loc_lng = 0, loc_speed = 0, updated_at = 0\<rparr>"

text \<open>The bus at stop S0, its latest reading \<open>m\<close> metres before stop S1 on the meridian,
  moving at \<open>v\<close> m/s.\<close>

definition eta_db :: "real \<Rightarrow> real \<Rightarrow> db" where
  "eta_db m v =
     test_db\<lparr>bus_tbl := [test_bus (Some ''S0'')],
             location_tbl := [test_location\<lparr>loc_lat := 0.009 - m * 180 / (6371000 * pi),
                                            loc_speed := v\<rparr>]\<rparr>"

section \<open>Route order and the two distance functions\<close>










lemma route_remaining_with_current:
  assumes "route_stops tbl (bus_route b) = stops" and "current_of b stops = Some cur"
  shows "route_remaining_distance_m tbl b lat lng =
     (case filter (\<lambda>s. stop_order cur < stop_order s) stops of
        [] \<Rightarrow> (None, Some 0, Some 0)
      | next_stop # others \<Rightarrow>
          (Some next_stop, Some (pos_dist lat lng next_stop),
           Some (path_loop next_stop others (pos_dist lat lng next_stop))))"
proof (cases stops)
  case Nil
  with assms(2) show ?thesis
    by (cases "current_stop b") (auto simp: current_of_def split: if_splits)
next
  case (Cons f r)
  with assms show ?thesis
    by (simp add: route_remaining_distance_m_def Let_def del: filter.simps split: list.split)
qed


lemma route_stops_test: "route_stops test_stops (bus_route (test_bus cs)) = test_stops"
  by (simp add: route_stops_def test_stops_def test_stop_def test_bus_def less_eq_prod_def)









section \<open>Trips\<close>

lemma qs_first_Some: "qs_first xs = Some x \<Longrightarrow> x \<in> set xs"
  by (cases xs) (auto simp: qs_first_def)

lemma qs_first_None: "qs_first xs = None \<longleftrightarrow> xs = []"
  by (cases xs) (auto simp: qs_first_def)

lemma get_bus_Some: "get_bus d i = Some b \<Longrightarrow> bus_id b = i \<and> b \<in> set (bus_tbl d)"
  by (auto simp: get_bus_def first_by_pk_def dest!: qs_first_Some)

lemma open_trip_of_Some: "open_trip_of d b = Some t \<Longrightarrow> t \<in> set (open_trips d b)"
  by (auto simp: open_trip_of_def open_trips_def order_by_desc_def dest!: qs_first_Some)

lemma sort_key_Nil: "sort_key f xs = [] \<longleftrightarrow> xs = []"
  by (metis length_sort length_0_conv)

lemma open_trip_of_None: "open_trip_of d b = None \<Longrightarrow> open_trips d b = []"
  by (simp add: open_trip_of_def open_trips_def order_by_desc_def qs_first_None sort_key_Nil)

lemma close_rows:
  "e \<noteq> None \<Longrightarrow>
   filter (\<lambda>t. trip_bus t = b \<and> end_time t = None)
     (map (\<lambda>r. if trip_id r = i then r\<lparr>end_time := e\<rparr> else r) ts) =
   filter (\<lambda>r. trip_id r \<noteq> i) (filter (\<lambda>t. trip_bus t = b \<and> end_time t = None) ts)"
  by (induction ts) auto

lemma open_trips_close:
  "open_trips (save_trip_end_time d (t\<lparr>end_time := Some x\<rparr>)) b =
     filter (\<lambda>r. trip_id r \<noteq> trip_id t) (open_trips d b)"
proof -
  have "end_time (t\<lparr>end_time := Some x\<rparr>) \<noteq> None" by simp
  from close_rows[OF this, of b "trip_id t" "trip_tbl d"] show ?thesis
    by (simp add: open_trips_def save_trip_end_time_def del: filter_filter)
qed

lemma open_trips_create:
  "open_trips (snd (create_trip d b s e)) b' =
     open_trips d b' @ (if b = b' \<and> e = None then [fst (create_trip d b s e)] else [])"
  by (simp add: open_trips_def create_trip_def Let_def)

lemma open_trips_save_bus: "open_trips (save_bus d b upd) b' = open_trips d b'"
  by (simp add: open_trips_def save_bus_def)

lemma open_trips_create_assignment: "open_trips (create_assignment d u b now) b' = open_trips d b'"
  by (simp add: open_trips_def create_assignment_def Let_def)

lemma open_trips_access: "open_trips (snd (driver_can_access_bus d u b now)) b' = open_trips d b'"
  by (simp add: driver_can_access_bus_def open_trips_create_assignment split: option.split)

lemma open_trips_dashboard_bus: "open_trips (snd (dashboard_bus d u now)) b' = open_trips d b'"
  by (simp add: dashboard_bus_def Let_def open_trips_create_assignment split: option.split)

lemma open_trips_backfill:
  "open_trips (snd (backfill_trip d b now e)) b' =
     open_trips d b' @ (if bus_id b = b' \<and> e = None then [fst (backfill_trip d b now e)] else [])"
  by (simp add: backfill_trip_def Let_def open_trips_create open_trips_save_bus)

lemma closed_first_open:
  assumes "length (open_trips d b) \<le> 1" and "open_trip_of d b = Some t"
  shows "open_trips (save_trip_end_time d (t\<lparr>end_time := Some x\<rparr>)) b = []"
proof -
  from open_trip_of_Some[OF assms(2)] assms(1) have "open_trips d b = [t]"
    by (cases "open_trips d b") auto
  then show ?thesis by (simp add: open_trips_close)
qed

lemma length_close_le:
  "length (open_trips (save_trip_end_time d (t\<lparr>end_time := Some x\<rparr>)) b) \<le> length (open_trips d b)"
  by (simp add: open_trips_close)

text \<open>The open trips of every bus after \<^verbatim>\<open>start_trip\<close> and \<^verbatim>\<open>end_trip\<close>, when the bus exists
  and the driver may access it.\<close>

lemma start_trip_open:
  assumes inv: "at_most_one_open_trip d" and b: "get_bus d bid = Some b"
    and ok: "fst (driver_can_access_bus d u b now)"
  shows "length (open_trips (start_trip d u bid now) bid) = 1"
    and "b' \<noteq> bid \<Longrightarrow> length (open_trips (start_trip d u bid now) b') \<le> length (open_trips d b')"
proof -
  obtain d1 where acc: "driver_can_access_bus d u b now = (True, d1)"
    using ok by (cases "driver_can_access_bus d u b now") auto
  have id: "bus_id b = bid" using get_bus_Some[OF b] by simp
  have o1: "\<And>x. open_trips d1 x = open_trips d x"
    using open_trips_access[of d u b now] acc by simp
  define d2 where "d2 = (case open_trip_of d1 bid of
                            Some open_trip \<Rightarrow> save_trip_end_time d1 (open_trip\<lparr>end_time := Some now\<rparr>)
                          | None \<Rightarrow> d1)"
  have le1: "length (open_trips d1 bid) \<le> 1"
    using inv by (simp add: at_most_one_open_trip_def o1)
  have closed: "open_trips d2 bid = []"
  proof (cases "open_trip_of d1 bid")
    case None
    then show ?thesis by (simp add: d2_def open_trip_of_None)
  next
    case (Some t)
    then show ?thesis using closed_first_open[OF le1 Some] by (simp add: d2_def)
  qed
  have other: "length (open_trips d2 b') \<le> length (open_trips d b')"
    using length_close_le[where d=d1 and x=now and b=b'] by (cases "open_trip_of d1 bid") (simp_all add: d2_def o1)
  have st: "start_trip d u bid now =
      save_bus (snd (create_trip d2 bid now None)) bid
        (\<lambda>r. r\<lparr>trip_active := True, trip_start_time := Some (start_time (fst (create_trip d2 bid now None)))\<rparr>)"
    using b acc id by (simp add: start_trip_def d2_def Let_def split: prod.split)
  show "length (open_trips (start_trip d u bid now) bid) = 1"
    using closed by (simp add: st open_trips_save_bus open_trips_create)
  show "b' \<noteq> bid \<Longrightarrow> length (open_trips (start_trip d u bid now) b') \<le> length (open_trips d b')"
    using other by (simp add: st open_trips_save_bus open_trips_create)
qed

lemma end_trip_open:
  assumes inv: "at_most_one_open_trip d" and b: "get_bus d bid = Some b"
    and ok: "fst (driver_can_access_bus d u b now)"
  shows "open_trips (end_trip d u bid now) bid = []"
    and "length (open_trips (end_trip d u bid now) b') \<le> length (open_trips d b')"
proof -
  obtain d1 where acc: "driver_can_access_bus d u b now = (True, d1)"
    using ok by (cases "driver_can_access_bus d u b now") auto
  have id: "bus_id b = bid" using get_bus_Some[OF b] by simp
  have o1: "\<And>x. open_trips d1 x = open_trips d x"
    using open_trips_access[of d u b now] acc by simp
  define d2 where "d2 = (case open_trip_of d1 bid of
                            Some open_trip \<Rightarrow> save_trip_end_time d1 (open_trip\<lparr>end_time := Some now\<rparr>)
                          | None \<Rightarrow>
                              if trip_active b then snd (backfill_trip d1 b now (Some now)) else d1)"
  have le1: "length (open_trips d1 bid) \<le> 1"
    using inv by (simp add: at_most_one_open_trip_def o1)
  have closed: "open_trips d2 bid = []"
  proof (cases "open_trip_of d1 bid")
    case None
    then show ?thesis by (simp add: d2_def open_trip_of_None open_trips_backfill)
  next
    case (Some t)
    then show ?thesis using closed_first_open[OF le1 Some] by (simp add: d2_def)
  qed
  have other: "length (open_trips d2 b') \<le> length (open_trips d b')"
    using length_close_le[where d=d1 and x=now and b=b']
    by (cases "open_trip_of d1 bid") (simp_all add: d2_def o1 open_trips_backfill)
  have et: "end_trip d u bid now = save_bus d2 bid (\<lambda>r. r\<lparr>trip_active := False\<rparr>)"
    using b acc id by (simp add: end_trip_def d2_def Let_def)
  show "open_trips (end_trip d u bid now) bid = []"
    using closed by (simp add: et open_trips_save_bus)
  show "length (open_trips (end_trip d u bid now) b') \<le> length (open_trips d b')"
    using other by (simp add: et open_trips_save_bus)
qed

lemma start_trip_refused:
  "get_bus d bid = None \<or> (\<exists>b. get_bus d bid = Some b \<and> \<not> fst (driver_can_access_bus d u b now))
     \<Longrightarrow> open_trips (start_trip d u bid now) b' = open_trips d b'"
proof (cases "get_bus d bid")
  case None
  then show ?thesis by (simp add: start_trip_def)
next
  case (Some b)
  assume "get_bus d bid = None \<or> (\<exists>b. get_bus d bid = Some b \<and> \<not> fst (driver_can_access_bus d u b now))"
  with Some have no: "\<not> fst (driver_can_access_bus d u b now)" by simp
  then obtain d1 where acc: "driver_can_access_bus d u b now = (False, d1)"
    by (cases "driver_can_access_bus d u b now") auto
  with open_trips_access[of d u b now b'] Some show ?thesis by (simp add: start_trip_def)
qed

lemma end_trip_refused:
  "get_bus d bid = None \<or> (\<exists>b. get_bus d bid = Some b \<and> \<not> fst (driver_can_access_bus d u b now))
     \<Longrightarrow> open_trips (end_trip d u bid now) b' = open_trips d b'"
proof (cases "get_bus d bid")
  case None
  then show ?thesis by (simp add: end_trip_def)
next
  case (Some b)
  assume "get_bus d bid = None \<or> (\<exists>b. get_bus d bid = Some b \<and> \<not> fst (driver_can_access_bus d u b now))"
  with Some have no: "\<not> fst (driver_can_access_bus d u b now)" by simp
  then obtain d1 where acc: "driver_can_access_bus d u b now = (False, d1)"
    by (cases "driver_can_access_bus d u b now") auto
  with open_trips_access[of d u b now b'] Some show ?thesis by (simp add: end_trip_def)
qed

lemma lazy_trip_open:
  assumes "length (open_trips d1 b') \<le> 1"
  shows "length (open_trips (case open_trip_of d1 (bus_id b) of
                               Some active_trip \<Rightarrow> d1
                             | None \<Rightarrow> snd (backfill_trip d1 b now None)) b') \<le> 1"
proof (cases "open_trip_of d1 (bus_id b)")
  case None
  from open_trip_of_None[OF None] assms show ?thesis
    by (auto simp: None open_trips_backfill)
next
  case (Some t)
  with assms show ?thesis by simp
qed

lemma driver_dashboard_open:
  assumes inv: "at_most_one_open_trip d"
  shows "length (open_trips (driver_dashboard d u now) b') \<le> 1"
proof -
  obtain ob d1 where db: "dashboard_bus d u now = (ob, d1)" by (cases "dashboard_bus d u now")
  have o1: "\<And>x. open_trips d1 x = open_trips d x"
    using open_trips_dashboard_bus[of d u now] db by simp
  have le: "length (open_trips d1 b') \<le> 1" using inv by (simp add: at_most_one_open_trip_def o1)
  show ?thesis
  proof (cases ob)
    case None
    with db le show ?thesis by (simp add: driver_dashboard_def)
  next
    case (Some b)
    show ?thesis
    proof (cases "trip_active b")
      case True
      with db Some lazy_trip_open[OF le, of b now] show ?thesis by (simp add: driver_dashboard_def)
    next
      case False
      with db Some le show ?thesis by (simp add: driver_dashboard_def)
    qed
  qed
qed

lemma driver_trip_summary_open:
  assumes inv: "at_most_one_open_trip d" and r: "driver_trip_summary d u bid now = Inr d'"
  shows "length (open_trips d' b') \<le> 1"
proof -
  from r obtain b where b: "get_bus d bid = Some b"
    by (cases "get_bus d bid") (auto simp: driver_trip_summary_def)
  obtain ok d1 where acc: "driver_can_access_bus d u b now = (ok, d1)"
    by (cases "driver_can_access_bus d u b now")
  with r b have ok: ok by (cases ok) (auto simp: driver_trip_summary_def)
  have o1: "\<And>x. open_trips d1 x = open_trips d x"
    using open_trips_access[of d u b now] acc by simp
  have le: "length (open_trips d1 b') \<le> 1" using inv by (simp add: at_most_one_open_trip_def o1)
  show ?thesis
  proof (cases "open_trip_of d1 (bus_id b)")
    case None
    with r b acc ok have "d' = (if trip_active b then snd (backfill_trip d1 b now None) else d1)"
      by (auto simp: driver_trip_summary_def)
    with lazy_trip_open[OF le, of b now] None le show ?thesis by (simp split: if_splits)
  next
    case (Some t)
    with r b acc ok have "d' = d1" by (auto simp: driver_trip_summary_def)
    with le show ?thesis by simp
  qed
qed

text \<open>The trip table after each operation.\<close>

lemma trip_tbl_create_assignment: "trip_tbl (create_assignment d u b now) = trip_tbl d"
  by (simp add: create_assignment_def Let_def)

lemma trip_tbl_access: "trip_tbl (snd (driver_can_access_bus d u b now)) = trip_tbl d"
  by (simp add: driver_can_access_bus_def trip_tbl_create_assignment split: option.split)

lemma trip_tbl_dashboard_bus: "trip_tbl (snd (dashboard_bus d u now)) = trip_tbl d"
  by (simp add: dashboard_bus_def Let_def trip_tbl_create_assignment split: option.split)

lemma trip_tbl_save_bus: "trip_tbl (save_bus d b upd) = trip_tbl d"
  by (simp add: save_bus_def)

lemma open_trip_of_tbl: "trip_tbl d1 = trip_tbl d \<Longrightarrow> open_trip_of d1 x = open_trip_of d x"
  by (simp add: open_trip_of_def)

lemma open_trip_of_None_iff: "open_trip_of d b = None \<longleftrightarrow> open_trips d b = []"
  by (simp add: open_trip_of_def open_trips_def order_by_desc_def qs_first_None sort_key_Nil)

lemma trip_tbl_close:
  "trip_tbl (save_trip_end_time d (t\<lparr>end_time := Some now\<rparr>)) = closed_at (trip_id t) now (trip_tbl d)"
  by (simp add: save_trip_end_time_def closed_at_def)

lemma trip_ids_closed: "map trip_id (closed_at i now ts) = map trip_id ts"
  by (induction ts) (simp_all add: closed_at_def)

lemma create_trip_new:
  "fst (create_trip d b s e) = new_trip (trip_tbl d) b s e"
  "trip_tbl (snd (create_trip d b s e)) = trip_tbl d @ [new_trip (trip_tbl d) b s e]"
  by (simp_all add: create_trip_def new_trip_def Let_def)

lemma trip_tbl_backfill:
  "trip_tbl (snd (backfill_trip d b now e)) =
     trip_tbl d @ [new_trip (trip_tbl d) (bus_id b) (flag_start b now) e]"
  by (simp add: backfill_trip_def Let_def create_trip_new trip_tbl_save_bus flag_start_def)

lemma new_trip_closed:
  "new_trip (closed_at i now ts) b s e = new_trip ts b s e"
  by (simp add: new_trip_def trip_ids_closed)

lemma start_trip_table:
  assumes b: "get_bus d bid = Some b" and ok: "fst (driver_can_access_bus d u b now)"
  shows "trip_tbl (start_trip d u bid now) =
           (case open_trip_of d bid of
              Some t \<Rightarrow> closed_at (trip_id t) now (trip_tbl d)
            | None \<Rightarrow> trip_tbl d) @ [new_trip (trip_tbl d) bid now None]"
proof -
  obtain d1 where acc: "driver_can_access_bus d u b now = (True, d1)"
    using ok by (cases "driver_can_access_bus d u b now") auto
  have id: "bus_id b = bid" using get_bus_Some[OF b] by simp
  have t1: "trip_tbl d1 = trip_tbl d" using trip_tbl_access[of d u b now] acc by simp
  have o1: "open_trip_of d1 bid = open_trip_of d bid" by (rule open_trip_of_tbl[OF t1])
  define d2 where "d2 = (case open_trip_of d1 bid of
                            Some open_trip \<Rightarrow> save_trip_end_time d1 (open_trip\<lparr>end_time := Some now\<rparr>)
                          | None \<Rightarrow> d1)"
  have t2: "trip_tbl d2 = (case open_trip_of d bid of
              Some t \<Rightarrow> closed_at (trip_id t) now (trip_tbl d)
            | None \<Rightarrow> trip_tbl d)"
    by (cases "open_trip_of d bid") (simp_all add: d2_def o1 trip_tbl_close t1)
  have n2: "new_trip (trip_tbl d2) bid now None = new_trip (trip_tbl d) bid now None"
    by (cases "open_trip_of d bid") (simp_all add: t2 new_trip_closed)
  have st: "start_trip d u bid now =
      save_bus (snd (create_trip d2 bid now None)) bid
        (\<lambda>r. r\<lparr>trip_active := True, trip_start_time := Some (start_time (fst (create_trip d2 bid now None)))\<rparr>)"
    using b acc id by (simp add: start_trip_def d2_def Let_def split: prod.split)
  have "trip_tbl (start_trip d u bid now) = trip_tbl d2 @ [new_trip (trip_tbl d2) bid now None]"
    by (simp add: st trip_tbl_save_bus create_trip_new)
  then have "trip_tbl (start_trip d u bid now) = trip_tbl d2 @ [new_trip (trip_tbl d) bid now None]"
    by (simp only: n2)
  then show ?thesis by (simp only: t2)
qed

lemma end_trip_table:
  assumes b: "get_bus d bid = Some b" and ok: "fst (driver_can_access_bus d u b now)"
  shows "trip_tbl (end_trip d u bid now) =
           (case open_trip_of d bid of
              Some t \<Rightarrow> closed_at (trip_id t) now (trip_tbl d)
            | None \<Rightarrow>
                if trip_active b
                then trip_tbl d @ [new_trip (trip_tbl d) bid (flag_start b now) (Some now)]
                else trip_tbl d)"
proof -
  obtain d1 where acc: "driver_can_access_bus d u b now = (True, d1)"
    using ok by (cases "driver_can_access_bus d u b now") auto
  have id: "bus_id b = bid" using get_bus_Some[OF b] by simp
  have t1: "trip_tbl d1 = trip_tbl d" using trip_tbl_access[of d u b now] acc by simp
  have o1: "open_trip_of d1 bid = open_trip_of d bid" by (rule open_trip_of_tbl[OF t1])
  define d2 where "d2 = (case open_trip_of d1 bid of
                            Some open_trip \<Rightarrow> save_trip_end_time d1 (open_trip\<lparr>end_time := Some now\<rparr>)
                          | None \<Rightarrow>
                              if trip_active b then snd (backfill_trip d1 b now (Some now)) else d1)"
  have et: "end_trip d u bid now = save_bus d2 bid (\<lambda>r. r\<lparr>trip_active := False\<rparr>)"
    using b acc id by (simp add: end_trip_def d2_def Let_def)
  show ?thesis
    by (cases "open_trip_of d bid")
       (simp_all add: et trip_tbl_save_bus d2_def o1 trip_tbl_close trip_tbl_backfill t1 id)
qed

lemma lazy_trip_table:
  assumes t1: "trip_tbl d1 = trip_tbl d"
  shows "trip_tbl (case open_trip_of d1 (bus_id b) of
                     Some active_trip \<Rightarrow> d1
                   | None \<Rightarrow> snd (backfill_trip d1 b now None)) =
         (if open_trips d (bus_id b) = []
          then trip_tbl d @ [new_trip (trip_tbl d) (bus_id b) (flag_start b now) None]
          else trip_tbl d)"
proof (cases "open_trip_of d (bus_id b)")
  case None
  then show ?thesis
    using open_trip_of_None_iff[of d "bus_id b"]
    by (simp add: open_trip_of_tbl[OF t1] trip_tbl_backfill t1)
next
  case (Some t)
  then show ?thesis
    using open_trip_of_None_iff[of d "bus_id b"]
    by (simp add: open_trip_of_tbl[OF t1] t1)
qed

lemma driver_dashboard_table:
  "trip_tbl (driver_dashboard d u now) =
     (case fst (dashboard_bus d u now) of
        None \<Rightarrow> trip_tbl d
      | Some b \<Rightarrow>
          if trip_active b \<and> open_trips d (bus_id b) = []
          then trip_tbl d @ [new_trip (trip_tbl d) (bus_id b) (flag_start b now) None]
          else trip_tbl d)"
proof -
  obtain ob d1 where db: "dashboard_bus d u now = (ob, d1)" by (cases "dashboard_bus d u now")
  have t1: "trip_tbl d1 = trip_tbl d" using trip_tbl_dashboard_bus[of d u now] db by simp
  show ?thesis
  proof (cases ob)
    case None
    with db t1 show ?thesis by (simp add: driver_dashboard_def)
  next
    case (Some b)
    show ?thesis
    proof (cases "trip_active b")
      case True
      with db Some lazy_trip_table[OF t1, of b now] show ?thesis by (simp add: driver_dashboard_def)
    next
      case False
      with db Some t1 show ?thesis by (simp add: driver_dashboard_def)
    qed
  qed
qed

lemma driver_trip_summary_table:
  assumes r: "driver_trip_summary d u bid now = Inr d'"
  shows "\<exists>b. get_bus d bid = Some b \<and> fst (driver_can_access_bus d u b now) \<and>
           trip_tbl d' =
             (if trip_active b \<and> open_trips d bid = []
              then trip_tbl d @ [new_trip (trip_tbl d) bid (flag_start b now) None]
              else trip_tbl d)"
proof -
  from r obtain b where b: "get_bus d bid = Some b"
    by (cases "get_bus d bid") (auto simp: driver_trip_summary_def)
  have id: "bus_id b = bid" using get_bus_Some[OF b] by simp
  obtain ok d1 where acc: "driver_can_access_bus d u b now = (ok, d1)"
    by (cases "driver_can_access_bus d u b now")
  with r b have ok: ok by (cases ok) (auto simp: driver_trip_summary_def)
  have t1: "trip_tbl d1 = trip_tbl d" using trip_tbl_access[of d u b now] acc by simp
  have d': "d' = (case open_trip_of d1 (bus_id b) of
                    Some active_trip \<Rightarrow> d1
                  | None \<Rightarrow> if trip_active b then snd (backfill_trip d1 b now None) else d1)"
    using r b acc ok by (auto simp: driver_trip_summary_def split: option.splits)
  have "trip_tbl d' =
             (if trip_active b \<and> open_trips d bid = []
              then trip_tbl d @ [new_trip (trip_tbl d) bid (flag_start b now) None]
              else trip_tbl d)"
  proof (cases "trip_active b")
    case True
    then have "d' = (case open_trip_of d1 (bus_id b) of
                    Some active_trip \<Rightarrow> d1
                  | None \<Rightarrow> snd (backfill_trip d1 b now None))"
      using d' by simp
    with lazy_trip_table[OF t1, of b now] True id show ?thesis by simp
  next
    case False
    then have "d' = d1" using d' by (simp split: option.split)
    with False t1 show ?thesis by simp
  qed
  with b acc ok show ?thesis by auto
qed

lemma singleton_open:
  assumes "length xs = 1" and "x \<in> set xs"
  shows "xs = [x]"
  using assms by (cases xs) auto

lemma start_trip_only_new:
  assumes inv: "at_most_one_open_trip d" and b: "get_bus d bid = Some b"
    and ok: "fst (driver_can_access_bus d u b now)"
  shows "open_trips (start_trip d u bid now) bid = [new_trip (trip_tbl d) bid now None]"
proof -
  have "new_trip (trip_tbl d) bid now None \<in> set (open_trips (start_trip d u bid now) bid)"
    unfolding open_trips_def start_trip_table[OF b ok] by (simp add: new_trip_def)
  with start_trip_open(1)[OF inv b ok] show ?thesis by (rule singleton_open)
qed

text \<open>
  C10. Every trip operation preserves "each bus has at most one trip row with a null
  end_time": \<^verbatim>\<open>start_trip\<close>, \<^verbatim>\<open>end_trip\<close>, the lazy creation of \<^verbatim>\<open>driver_dashboard\<close> and
  that of \<^verbatim>\<open>driver_trip_summary\<close>. When the bus exists and the driver may access it:
  \<^verbatim>\<open>start_trip\<close> leaves the table with the open trip of the bus, if there is one,
  closed at \<open>now\<close>, followed by a new trip that starts at \<open>now\<close> and is open, which is then
  the only open trip of the bus; \<^verbatim>\<open>end_trip\<close> leaves the table with the open trip
  closed at \<open>now\<close>, or, when there is none and the flag \<^verbatim>\<open>trip_active\<close> is set, with one
  more trip that is already closed (from \<^verbatim>\<open>trip_start_time\<close> to \<open>now\<close>), and the bus has
  no open trip. The dashboard and the trip summary add a trip, an open one, only when
  the flag is set and the bus has no open trip; otherwise they leave the table as it is.
\<close>

theorem trip_operations_keep_one_open_trip:
  assumes inv: "at_most_one_open_trip d"
  shows "at_most_one_open_trip (start_trip d u bid now)
       \<and> at_most_one_open_trip (end_trip d u bid now)
       \<and> at_most_one_open_trip (driver_dashboard d u now)
       \<and> (\<forall>d'. driver_trip_summary d u bid now = Inr d' \<longrightarrow> at_most_one_open_trip d')
       \<and> (\<forall>b. get_bus d bid = Some b \<and> fst (driver_can_access_bus d u b now) \<longrightarrow>
             trip_tbl (start_trip d u bid now) =
               (case open_trip_of d bid of
                  Some t \<Rightarrow> closed_at (trip_id t) now (trip_tbl d)
                | None \<Rightarrow> trip_tbl d) @ [new_trip (trip_tbl d) bid now None] \<and>
             open_trips (start_trip d u bid now) bid = [new_trip (trip_tbl d) bid now None] \<and>
             trip_tbl (end_trip d u bid now) =
               (case open_trip_of d bid of
                  Some t \<Rightarrow> closed_at (trip_id t) now (trip_tbl d)
                | None \<Rightarrow>
                    if trip_active b
                    then trip_tbl d @ [new_trip (trip_tbl d) bid (flag_start b now) (Some now)]
                    else trip_tbl d) \<and>
             open_trips (end_trip d u bid now) bid = [])
       \<and> trip_tbl (driver_dashboard d u now) =
           (case fst (dashboard_bus d u now) of
              None \<Rightarrow> trip_tbl d
            | Some b \<Rightarrow>
                if trip_active b \<and> open_trips d (bus_id b) = []
                then trip_tbl d @ [new_trip (trip_tbl d) (bus_id b) (flag_start b now) None]
                else trip_tbl d)
       \<and> (\<forall>d'. driver_trip_summary d u bid now = Inr d' \<longrightarrow>
             (\<exists>b. get_bus d bid = Some b \<and>
                  trip_tbl d' =
                    (if trip_active b \<and> open_trips d bid = []
                     then trip_tbl d @ [new_trip (trip_tbl d) bid (flag_start b now) None]
                     else trip_tbl d)))"
proof (intro conjI allI impI)
  show "at_most_one_open_trip (start_trip d u bid now)"
    unfolding at_most_one_open_trip_def
  proof
    fix b'
    show "length (open_trips (start_trip d u bid now) b') \<le> 1"
    proof (cases "\<exists>b. get_bus d bid = Some b \<and> fst (driver_can_access_bus d u b now)")
      case True
      then obtain b where b: "get_bus d bid = Some b" "fst (driver_can_access_bus d u b now)" by blast
      from start_trip_open[OF inv b] inv show ?thesis
        by (cases "b' = bid") (auto simp: at_most_one_open_trip_def intro: order_trans)
    next
      case False
      then have "get_bus d bid = None \<or>
                 (\<exists>b. get_bus d bid = Some b \<and> \<not> fst (driver_can_access_bus d u b now))"
        by (cases "get_bus d bid") auto
      from start_trip_refused[OF this] inv show ?thesis by (simp add: at_most_one_open_trip_def)
    qed
  qed
next
  show "at_most_one_open_trip (end_trip d u bid now)"
    unfolding at_most_one_open_trip_def
  proof
    fix b'
    show "length (open_trips (end_trip d u bid now) b') \<le> 1"
    proof (cases "\<exists>b. get_bus d bid = Some b \<and> fst (driver_can_access_bus d u b now)")
      case True
      then obtain b where b: "get_bus d bid = Some b" "fst (driver_can_access_bus d u b now)" by blast
      from end_trip_open(2)[OF inv b, of b'] inv show ?thesis
        by (auto simp: at_most_one_open_trip_def intro: order_trans)
    next
      case False
      then have "get_bus d bid = None \<or>
                 (\<exists>b. get_bus d bid = Some b \<and> \<not> fst (driver_can_access_bus d u b now))"
        by (cases "get_bus d bid") auto
      from end_trip_refused[OF this] inv show ?thesis by (simp add: at_most_one_open_trip_def)
    qed
  qed
next
  show "at_most_one_open_trip (driver_dashboard d u now)"
    using driver_dashboard_open[OF inv] by (simp add: at_most_one_open_trip_def)
next
  fix d'
  assume "driver_trip_summary d u bid now = Inr d'"
  from driver_trip_summary_open[OF inv this] show "at_most_one_open_trip d'"
    by (simp add: at_most_one_open_trip_def)
next
  fix b
  assume h: "get_bus d bid = Some b \<and> fst (driver_can_access_bus d u b now)"
  then have b: "get_bus d bid = Some b" and ok: "fst (driver_can_access_bus d u b now)" by simp_all
  show "trip_tbl (start_trip d u bid now) =
               (case open_trip_of d bid of
                  Some t \<Rightarrow> closed_at (trip_id t) now (trip_tbl d)
                | None \<Rightarrow> trip_tbl d) @ [new_trip (trip_tbl d) bid now None]"
    by (rule start_trip_table[OF b ok])
  show "open_trips (start_trip d u bid now) bid = [new_trip (trip_tbl d) bid now None]"
    by (rule start_trip_only_new[OF inv b ok])
  show "trip_tbl (end_trip d u bid now) =
               (case open_trip_of d bid of
                  Some t \<Rightarrow> closed_at (trip_id t) now (trip_tbl d)
                | None \<Rightarrow>
                    if trip_active b
                    then trip_tbl d @ [new_trip (trip_tbl d) bid (flag_start b now) (Some now)]
                    else trip_tbl d)"
    by (rule end_trip_table[OF b ok])
  show "open_trips (end_trip d u bid now) bid = []"
    by (rule end_trip_open(1)[OF inv b ok])
next
  show "trip_tbl (driver_dashboard d u now) =
           (case fst (dashboard_bus d u now) of
              None \<Rightarrow> trip_tbl d
            | Some b \<Rightarrow>
                if trip_active b \<and> open_trips d (bus_id b) = []
                then trip_tbl d @ [new_trip (trip_tbl d) (bus_id b) (flag_start b now) None]
                else trip_tbl d)"
    by (rule driver_dashboard_table)
next
  fix d'
  assume "driver_trip_summary d u bid now = Inr d'"
  from driver_trip_summary_table[OF this]
  show "\<exists>b. get_bus d bid = Some b \<and>
             trip_tbl d' =
               (if trip_active b \<and> open_trips d bid = []
                then trip_tbl d @ [new_trip (trip_tbl d) bid (flag_start b now) None]
                else trip_tbl d)"
    by blast
qed

lemma get_bus_test:
  "get_bus test_db 1 = Some ((test_bus None)\<lparr>trip_active := True, trip_start_time := Some 0\<rparr>)"
  by (simp add: get_bus_def test_db_def test_bus_def first_by_pk_def qs_first_def)

lemma access_test:
  "driver_can_access_bus test_db test_driver
     ((test_bus None)\<lparr>trip_active := True, trip_start_time := Some 0\<rparr>) now = (True, test_db)"
  by (simp add: driver_can_access_bus_def test_db_def test_driver_def test_bus_def)

lemma get_bus_no_trips:
  "get_bus (test_db\<lparr>trip_tbl := []\<rparr>) 1 =
     Some ((test_bus None)\<lparr>trip_active := True, trip_start_time := Some 0\<rparr>)"
  using get_bus_test by (simp add: get_bus_def)

lemma access_no_trips:
  "driver_can_access_bus (test_db\<lparr>trip_tbl := []\<rparr>) test_driver
     ((test_bus None)\<lparr>trip_active := True, trip_start_time := Some 0\<rparr>) now =
   (True, test_db\<lparr>trip_tbl := []\<rparr>)"
  by (simp add: driver_can_access_bus_def test_db_def test_driver_def test_bus_def)

lemma dashboard_bus_test:
  "fst (dashboard_bus test_db test_driver now) =
     Some ((test_bus None)\<lparr>trip_active := True, trip_start_time := Some 0\<rparr>)"
  "fst (dashboard_bus (test_db\<lparr>trip_tbl := []\<rparr>) test_driver now) =
     Some ((test_bus None)\<lparr>trip_active := True, trip_start_time := Some 0\<rparr>)"
  by (simp_all add: dashboard_bus_def Let_def order_by_desc_def qs_first_def get_bus_def first_by_pk_def
        test_db_def test_driver_def test_bus_def)

theorem trip_operations_keep_one_open_trip_witness:
  "at_most_one_open_trip test_db \<and> at_most_one_open_trip (test_db\<lparr>trip_tbl := []\<rparr>)
   \<and> trip_tbl test_db = [\<lparr>trip_id = 1, trip_bus = 1, start_time = 0, end_time = None\<rparr>]
   \<and> trip_tbl (start_trip test_db test_driver 1 600) =
       [\<lparr>trip_id = 1, trip_bus = 1, start_time = 0, end_time = Some 600\<rparr>,
        \<lparr>trip_id = 2, trip_bus = 1, start_time = 600, end_time = None\<rparr>]
   \<and> open_trips (start_trip test_db test_driver 1 600) 1 =
       [\<lparr>trip_id = 2, trip_bus = 1, start_time = 600, end_time = None\<rparr>]
   \<and> trip_tbl (end_trip test_db test_driver 1 600) =
       [\<lparr>trip_id = 1, trip_bus = 1, start_time = 0, end_time = Some 600\<rparr>]
   \<and> trip_tbl (end_trip (test_db\<lparr>trip_tbl := []\<rparr>) test_driver 1 600) =
       [\<lparr>trip_id = 1, trip_bus = 1, start_time = 0, end_time = Some 600\<rparr>]
   \<and> open_trips (end_trip (test_db\<lparr>trip_tbl := []\<rparr>) test_driver 1 600) 1 = []
   \<and> trip_tbl (driver_dashboard test_db test_driver 600) =
       [\<lparr>trip_id = 1, trip_bus = 1, start_time = 0, end_time = None\<rparr>]
   \<and> trip_tbl (driver_dashboard (test_db\<lparr>trip_tbl := []\<rparr>) test_driver 600) =
       [\<lparr>trip_id = 1, trip_bus = 1, start_time = 0, end_time = None\<rparr>]
   \<and> (\<exists>d'. driver_trip_summary (test_db\<lparr>trip_tbl := []\<rparr>) test_driver 1 600 = Inr d' \<and>
          trip_tbl d' = [\<lparr>trip_id = 1, trip_bus = 1, start_time = 0, end_time = None\<rparr>] \<and>
          at_most_one_open_trip d')
   \<and> driver_trip_summary test_db test_driver 1 600 = Inr test_db
   \<and> at_most_one_open_trip (start_trip test_db test_driver 1 600)
   \<and> at_most_one_open_trip (end_trip test_db test_driver 1 600)
   \<and> at_most_one_open_trip (driver_dashboard (test_db\<lparr>trip_tbl := []\<rparr>) test_driver 600)"
proof -
  let ?b = "(test_bus None)\<lparr>trip_active := True, trip_start_time := Some 0\<rparr>"
  let ?t = "\<lparr>trip_id = 1, trip_bus = 1, start_time = 0, end_time = None\<rparr> :: bus_trip"
  have inv: "at_most_one_open_trip test_db"
    by (simp add: at_most_one_open_trip_def open_trips_def test_db_def)
  have inv0: "at_most_one_open_trip (test_db\<lparr>trip_tbl := []\<rparr>)"
    by (simp add: at_most_one_open_trip_def open_trips_def)
  have tbl: "trip_tbl test_db = [?t]" by (simp add: test_db_def)
  have ot: "open_trip_of test_db 1 = Some ?t"
    by (simp add: open_trip_of_def order_by_desc_def qs_first_def test_db_def)
  have ot0: "open_trip_of (test_db\<lparr>trip_tbl := []\<rparr>) 1 = None"
    by (simp add: open_trip_of_def order_by_desc_def qs_first_def)
  have os: "open_trips test_db (bus_id ?b) = [?t]" "open_trips (test_db\<lparr>trip_tbl := []\<rparr>) (bus_id ?b) = []"
    by (simp_all add: open_trips_def test_db_def test_bus_def)
  have fl: "trip_active ?b" "flag_start ?b 600 = 0" "bus_id ?b = 1"
    by (simp_all add: flag_start_def test_bus_def)
  have cl: "closed_at 1 600 [?t] = [\<lparr>trip_id = 1, trip_bus = 1, start_time = 0, end_time = Some 600\<rparr>]"
    by (simp add: closed_at_def)
  have nw: "new_trip [?t] 1 600 None = \<lparr>trip_id = 2, trip_bus = 1, start_time = 600, end_time = None\<rparr>"
    "new_trip [] 1 0 e = \<lparr>trip_id = 1, trip_bus = 1, start_time = 0, end_time = e\<rparr>" for e
    by (simp_all add: new_trip_def next_id_def)
  note a = trip_operations_keep_one_open_trip[OF inv, of test_driver 1 600]
  note a0 = trip_operations_keep_one_open_trip[OF inv0, of test_driver 1 600]
  have s1: "trip_tbl (start_trip test_db test_driver 1 600) =
       [\<lparr>trip_id = 1, trip_bus = 1, start_time = 0, end_time = Some 600\<rparr>,
        \<lparr>trip_id = 2, trip_bus = 1, start_time = 600, end_time = None\<rparr>]"
   and s2: "open_trips (start_trip test_db test_driver 1 600) 1 =
       [\<lparr>trip_id = 2, trip_bus = 1, start_time = 600, end_time = None\<rparr>]"
   and s3: "trip_tbl (end_trip test_db test_driver 1 600) =
       [\<lparr>trip_id = 1, trip_bus = 1, start_time = 0, end_time = Some 600\<rparr>]"
    using a by (simp_all add: get_bus_test access_test ot tbl cl nw del: One_nat_def)
  have s4: "trip_tbl (end_trip (test_db\<lparr>trip_tbl := []\<rparr>) test_driver 1 600) =
       [\<lparr>trip_id = 1, trip_bus = 1, start_time = 0, end_time = Some 600\<rparr>]"
   and s5: "open_trips (end_trip (test_db\<lparr>trip_tbl := []\<rparr>) test_driver 1 600) 1 = []"
    using a0 by (simp_all add: get_bus_no_trips access_no_trips ot0 fl nw del: One_nat_def)
  note dash = a[THEN conjunct2, THEN conjunct2, THEN conjunct2, THEN conjunct2, THEN conjunct2,
                THEN conjunct1]
  note dash0 = a0[THEN conjunct2, THEN conjunct2, THEN conjunct2, THEN conjunct2, THEN conjunct2,
                  THEN conjunct1]
  have s6: "trip_tbl (driver_dashboard test_db test_driver 600) = [?t]"
    unfolding dash dashboard_bus_test option.case os by (simp add: tbl del: One_nat_def)
  have s7: "trip_tbl (driver_dashboard (test_db\<lparr>trip_tbl := []\<rparr>) test_driver 600) = [?t]"
    unfolding dash0 dashboard_bus_test option.case os by (simp add: fl nw del: One_nat_def)
  from a a0 have s8: "at_most_one_open_trip (start_trip test_db test_driver 1 600)"
    "at_most_one_open_trip (end_trip test_db test_driver 1 600)"
    "at_most_one_open_trip (driver_dashboard (test_db\<lparr>trip_tbl := []\<rparr>) test_driver 600)"
    by simp_all
  have s9: "\<exists>d'. driver_trip_summary (test_db\<lparr>trip_tbl := []\<rparr>) test_driver 1 600 = Inr d' \<and>
          trip_tbl d' = [?t] \<and> at_most_one_open_trip d'"
  proof -
    let ?d' = "snd (backfill_trip (test_db\<lparr>trip_tbl := []\<rparr>) ?b 600 None)"
    have r: "driver_trip_summary (test_db\<lparr>trip_tbl := []\<rparr>) test_driver 1 600 = Inr ?d'"
      using ot0 fl(1,3)
      by (simp add: driver_trip_summary_def get_bus_no_trips access_no_trips del: One_nat_def)
    from a0 r have "at_most_one_open_trip ?d'" by blast
    moreover from a0 r have "trip_tbl ?d' = [?t]"
      using os(2) by (simp add: get_bus_no_trips fl nw del: One_nat_def)
    ultimately show ?thesis using r by blast
  qed
  have s10: "driver_trip_summary test_db test_driver 1 600 = Inr test_db"
    using ot fl(3)
    by (simp add: driver_trip_summary_def get_bus_test access_test del: One_nat_def)
  from inv inv0 tbl s1 s2 s3 s4 s5 s6 s7 s8 s9 s10 show ?thesis by (simp only: simp_thms)
qed

section \<open>The great-circle distance over the reals\<close>

lemma haversine_a_same_lon:
  "haversine_a lat1 lon lat2 lon = (sin (radians (lat2 - lat1) / 2))\<^sup>2"
  by (simp add: haversine_a_def radians_def)

lemma atan2_abs_sin_cos:
  assumes "\<bar>x\<bar> < pi / 2"
  shows "atan2 \<bar>sin x\<bar> (cos x) = \<bar>x\<bar>"
proof -
  have c: "0 < cos x" using assms by (intro cos_gt_zero_pi) (auto simp: abs_less_iff)
  have "\<bar>sin x\<bar> = sin \<bar>x\<bar>"
  proof (cases "0 \<le> x")
    case True
    with assms have "0 \<le> sin x" by (intro sin_ge_zero) auto
    with True show ?thesis by simp
  next
    case False
    with assms have "0 \<le> sin (- x)" by (intro sin_ge_zero) auto
    with False show ?thesis by simp
  qed
  moreover have "cos x = cos \<bar>x\<bar>" by (simp add: abs_if)
  ultimately have "\<bar>sin x\<bar> / cos x = tan \<bar>x\<bar>" by (simp add: tan_def)
  moreover have "arctan (tan \<bar>x\<bar>) = \<bar>x\<bar>"
    using assms by (intro arctan_tan) auto
  ultimately show ?thesis using c by (simp add: atan2_def)
qed

lemma distance_meters_meridian:
  assumes "\<bar>lat2 - lat1\<bar> < 180"
  shows "distance_meters lat1 lon lat2 lon = 6371000 * (\<bar>lat2 - lat1\<bar> * pi / 180)"
proof -
  define x where "x = radians (lat2 - lat1) / 2"
  have x: "\<bar>x\<bar> < pi / 2"
  proof -
    have "\<bar>x\<bar> = \<bar>lat2 - lat1\<bar> * pi / 360" by (simp add: x_def radians_def abs_mult)
    also have "\<dots> < 180 * pi / 360" using assms by (simp add: divide_strict_right_mono)
    finally show ?thesis by simp
  qed
  have c: "0 < cos x" using x by (intro cos_gt_zero_pi) (auto simp: abs_less_iff)
  have a: "haversine_a lat1 lon lat2 lon = (sin x)\<^sup>2"
    by (simp add: haversine_a_same_lon x_def)
  have "sqrt (1 - (sin x)\<^sup>2) = cos x"
    using c by (simp add: cos_squared_eq[symmetric])
  then have "atan2 (sqrt (haversine_a lat1 lon lat2 lon)) (sqrt (1 - haversine_a lat1 lon lat2 lon)) = \<bar>x\<bar>"
    using atan2_abs_sin_cos[OF x] by (simp add: a)
  then have "distance_meters lat1 lon lat2 lon = 6371000 * (2 * \<bar>x\<bar>)"
    by (simp add: distance_meters_def Let_def)
  also have "2 * \<bar>x\<bar> = \<bar>lat2 - lat1\<bar> * pi / 180"
    by (simp add: x_def radians_def abs_mult)
  finally show ?thesis .
qed



lemma haversine_a_sym: "haversine_a lat1 lon1 lat2 lon2 = haversine_a lat2 lon2 lat1 lon1"
proof -
  have m: "\<And>a b. radians (a - b) / 2 = - (radians (b - a) / 2)"
    by (simp add: radians_def field_simps)
  have "sin (radians (lat2 - lat1) / 2) = - sin (radians (lat1 - lat2) / 2)"
    by (simp only: m[of lat2 lat1] sin_minus)
  moreover have "sin (radians (lon2 - lon1) / 2) = - sin (radians (lon1 - lon2) / 2)"
    by (simp only: m[of lon2 lon1] sin_minus)
  ultimately show ?thesis by (simp add: haversine_a_def mult.commute)
qed

lemma distance_meters_sym: "distance_meters lat1 lon1 lat2 lon2 = distance_meters lat2 lon2 lat1 lon1"
  by (simp add: distance_meters_def haversine_a_sym[of lat1 lon1 lat2 lon2])

lemma atan2_nonneg: "0 \<le> y \<Longrightarrow> 0 \<le> atan2 y x"
proof -
  assume y: "0 \<le> y"
  have "- (pi / 2) < arctan (y / x)" by (rule arctan_lbound)
  moreover have "0 < x \<Longrightarrow> 0 \<le> arctan (y / x)" using y by simp
  moreover have "0 < pi" by simp
  ultimately show ?thesis using y unfolding atan2_def by (auto; linarith)
qed

lemma distance_meters_nonneg:
  assumes "\<bar>lat1\<bar> \<le> 90" and "\<bar>lat2\<bar> \<le> 90"
  shows "0 \<le> distance_meters lat1 lon1 lat2 lon2"
proof -
  have c: "\<And>l. \<bar>l\<bar> \<le> 90 \<Longrightarrow> 0 \<le> cos (radians l)"
  proof -
    fix l :: real assume "\<bar>l\<bar> \<le> 90"
    then have "- 90 \<le> l" "l \<le> 90" by auto
    then have "(- 90) * (pi / 180) \<le> l * (pi / 180)" "l * (pi / 180) \<le> 90 * (pi / 180)"
      by (intro mult_right_mono; simp)+
    then have "- (pi / 2) \<le> radians l" "radians l \<le> pi / 2"
      by (simp_all add: radians_def)
    then show "0 \<le> cos (radians l)" by (rule cos_ge_zero)
  qed
  have "0 \<le> haversine_a lat1 lon1 lat2 lon2"
    using c[OF assms(1)] c[OF assms(2)] by (simp add: haversine_a_def)
  then have "0 \<le> atan2 (sqrt (haversine_a lat1 lon1 lat2 lon2)) (sqrt (1 - haversine_a lat1 lon1 lat2 lon2))"
    by (intro atan2_nonneg) simp
  then show ?thesis by (simp add: distance_meters_def Let_def)
qed

lemma haversine_a_dot:
  "haversine_a lat1 lon1 lat2 lon2 =
     (1 - (cos (radians lat1) * cos (radians lat2) * cos (radians (lon2 - lon1)) +
           sin (radians lat1) * sin (radians lat2))) / 2"
proof -
  have h: "\<And>x::real. (sin (x / 2))\<^sup>2 = (1 - cos x) / 2"
    using cos_double_sin[of "x / 2" for x :: real] by (simp add: field_simps)
  have r: "radians (lat2 - lat1) = radians lat2 - radians lat1"
    by (simp add: radians_def left_diff_distrib)
  show ?thesis
    unfolding haversine_a_def Let_def h r cos_diff
    by (simp add: field_simps)
qed

lemma unit_dot_le_1:
  fixes c1 c2 s1 s2 k :: real
  assumes "c1\<^sup>2 + s1\<^sup>2 = 1" "c2\<^sup>2 + s2\<^sup>2 = 1" "\<bar>k\<bar> \<le> 1"
  shows "\<bar>c1 * c2 * k + s1 * s2\<bar> \<le> 1"
proof -
  have "\<bar>c1 * c2 * k\<bar> \<le> \<bar>c1 * c2\<bar>"
    using assms(3) by (simp add: abs_mult mult_left_le)
  moreover have "2 * \<bar>c1 * c2\<bar> \<le> c1\<^sup>2 + c2\<^sup>2"
    using sum_squares_bound[of c1 c2] sum_squares_bound[of "- c1" c2] by (auto simp: abs_le_iff)
  moreover have "2 * \<bar>s1 * s2\<bar> \<le> s1\<^sup>2 + s2\<^sup>2"
    using sum_squares_bound[of s1 s2] sum_squares_bound[of "- s1" s2] by (auto simp: abs_le_iff)
  moreover have "(c1\<^sup>2 + c2\<^sup>2) + (s1\<^sup>2 + s2\<^sup>2) = 2"
    using assms(1,2) by argo
  ultimately have "2 * (\<bar>c1 * c2 * k\<bar> + \<bar>s1 * s2\<bar>) \<le> 2" by argo
  then show ?thesis by argo
qed

lemma haversine_a_bounds:
  "0 \<le> haversine_a lat1 lon1 lat2 lon2 \<and> haversine_a lat1 lon1 lat2 lon2 \<le> 1"
proof -
  have "\<bar>cos (radians lat1) * cos (radians lat2) * cos (radians (lon2 - lon1)) +
           sin (radians lat1) * sin (radians lat2)\<bar> \<le> 1"
    by (rule unit_dot_le_1) (simp_all add: add.commute)
  then show ?thesis unfolding haversine_a_dot by (auto simp: abs_le_iff)
qed

lemma distance_meters_ge_0: "0 \<le> distance_meters lat1 lon1 lat2 lon2"
proof -
  have "0 \<le> atan2 (sqrt (haversine_a lat1 lon1 lat2 lon2)) (sqrt (1 - haversine_a lat1 lon1 lat2 lon2))"
    using haversine_a_bounds[of lat1 lon1 lat2 lon2] by (intro atan2_nonneg) simp
  then show ?thesis by (simp add: distance_meters_def Let_def)
qed

section \<open>Double arithmetic\<close>

text \<open>The only exception of \<open>distance_meters_fl\<close> is the \<^verbatim>\<open>ValueError\<close> of \<^verbatim>\<open>math.sqrt\<close>; it
  is raised when the haversine term, as computed, is above 1 (or below 0). Without
  rounding the term lies between 0 and 1 and the function is \<open>distance_meters\<close>.\<close>

lemma distance_meters_fl_Inl: "distance_meters_fl fl lat1 lon1 lat2 lon2 = Inl ex \<Longrightarrow> ex = ValueError"
  by (auto simp: distance_meters_fl_def py_sqrt_def Let_def split: if_splits)

text \<open>
  C9. The claim has the distance function return a finite non-negative number for all
  valid coordinates. As the interpreter evaluates it, the function raises \<^verbatim>\<open>ValueError\<close>
  exactly when the haversine term \<^verbatim>\<open>a\<close>, as computed, is below 0 or \<^verbatim>\<open>1 - a\<close>, as
  computed, is below 0. In double arithmetic that happens for points that are nearly
  antipodal: from (-83.84, -95.65) to (83.84, 84.35) the term is 1.0000000000000002.
  (In exact arithmetic the term lies between 0 and 1, the distance of a point to itself
  is 0, the distance is symmetric and it is not negative: \<open>haversine_a_bounds\<close>,
  \<open>distance_meters_self\<close>, \<open>distance_meters_sym\<close>, \<open>distance_meters_ge_0\<close>.)
\<close>

theorem distance_meters_fl_raises_iff:
  "distance_meters_fl fl lat1 lon1 lat2 lon2 = Inl ValueError \<longleftrightarrow>
     haversine_a_fl fl lat1 lon1 lat2 lon2 < 0 \<or>
     f_sub fl 1 (haversine_a_fl fl lat1 lon1 lat2 lon2) < 0"
  by (simp add: distance_meters_fl_def py_sqrt_def Let_def)

lemma haversine_a_fl_exact: "haversine_a_fl exact_ops lat1 lon1 lat2 lon2 = haversine_a lat1 lon1 lat2 lon2"
  by (simp add: haversine_a_fl_def haversine_a_def exact_ops_def)

lemma distance_meters_fl_exact:
  "distance_meters_fl exact_ops lat1 lon1 lat2 lon2 = Inr (distance_meters lat1 lon1 lat2 lon2)"
proof -
  have "py_sqrt exact_ops (haversine_a lat1 lon1 lat2 lon2) = Inr (sqrt (haversine_a lat1 lon1 lat2 lon2))"
    using haversine_a_bounds[of lat1 lon1 lat2 lon2] by (simp add: py_sqrt_def exact_ops_def)
  moreover have "py_sqrt exact_ops (f_sub exact_ops 1 (haversine_a lat1 lon1 lat2 lon2)) =
                 Inr (sqrt (1 - haversine_a lat1 lon1 lat2 lon2))"
    using haversine_a_bounds[of lat1 lon1 lat2 lon2] by (simp add: py_sqrt_def exact_ops_def)
  moreover have "f_mul exact_ops 6371000 (f_mul exact_ops 2 (f_atan2 exact_ops x y)) =
                 6371000 * (2 * atan2 x y)" for x y
    by (simp add: exact_ops_def)
  ultimately show ?thesis
    unfolding distance_meters_fl_def haversine_a_fl_exact Let_def
    by (simp add: distance_meters_def Let_def)
qed

lemma path_loop_fl_exact: "path_loop_fl exact_ops prev ss path = Inr (path_loop prev ss path)"
  by (induction ss arbitrary: prev path) (simp_all add: distance_meters_fl_exact, simp add: exact_ops_def)

lemma route_remaining_distance_fl_exact:
  "route_remaining_distance_fl exact_ops tbl b lat lng = Inr (route_remaining_distance_m tbl b lat lng)"
  by (simp add: route_remaining_distance_fl_def route_remaining_distance_m_def
        distance_meters_fl_exact path_loop_fl_exact Let_def split: list.split option.split)

section \<open>Ingesting a position\<close>










lemma payload_floats_present: "payload_floats p = Some x \<Longrightarrow> coords_present p"
  by (auto simp: payload_floats_def coords_present_def split: option.splits)

text \<open>The view once the payload is read, the bus found and the coordinates in range.\<close>

lemma update_bus_location_accepted:
  assumes "get_bus d bid = Some b" and "payload_floats p = Some (lat, lng, sp)"
    and "- 90 \<le> lat" "lat \<le> 90" "- 180 \<le> lng" "lng \<le> 180"
  shows "update_bus_location fl d bid p now =
     (case store_reading fl d bid lat lng (if sp < 0 then 0 else sp) now of
        Inl ex \<Rightarrow> (Exception ex, d)
      | Inr d1 \<Rightarrow>
          (case snap_current_stop fl d1 b lat lng of
             Inl ex \<Rightarrow> (Exception ex, d1)
           | Inr d2 \<Rightarrow> (Response (), d2)))"
  using assms payload_floats_present[OF assms(2)]
  by (simp add: update_bus_location_def Let_def)


lemma test_stop_dist:
  "\<bar>l - lat\<bar> < 180 \<Longrightarrow> pos_dist lat 0 (test_stop i n k l) = 6371000 * (\<bar>l - lat\<bar> * pi / 180)"
  by (simp add: test_stop_def distance_meters_meridian)







text \<open>A JSON body that gives the latitude 0 under the key \<^verbatim>\<open>lat\<close> alone is answered as
  if the latitude were missing; the same number as a string is accepted.\<close>

lemma update_bus_location_json_zero:
  "update_bus_location fl d bid
     \<lparr>p_lat = Some (Number 0), p_latitude = None, p_lng = Some (Number lng), p_longitude = None,
      p_speed = sp\<rparr> now = (Error BadRequest, d)"
  by (simp add: update_bus_location_def coords_present_def py_or_def truthy_def)





text \<open>Storing a reading without a speed when the bus has the previous reading \<open>prev\<close>.\<close>

lemma store_reading_estimated:
  assumes "latest_location d bid = Some prev"
  shows "store_reading fl d bid lat lng 0 now =
     (case estimate_speed_mps fl (Some (loc_lat prev)) (Some (loc_lng prev)) (Some (updated_at prev))
             lat lng now of
        Inl ex \<Rightarrow> Inl ex
      | Inr v \<Rightarrow>
          Inr (save_location d (prev\<lparr>loc_lat := lat, loc_lng := lng, loc_speed := v,
                                     updated_at := now\<rparr>)))"
  using assms by (simp add: store_reading_def Let_def)






text \<open>When the computation of the distance between two consecutive fixes raises, the
  request ends with the exception and the reading is not stored.\<close>

lemma estimate_raises_nothing_stored:
  assumes "get_bus d bid = Some b" and "payload_floats p = Some (lat, lng, sp)"
    and "- 90 \<le> lat" "lat \<le> 90" "- 180 \<le> lng" "lng \<le> 180" and "sp \<le> 0"
    and "latest_location d bid = Some prev"
    and "0.5 < now - updated_at prev" "now - updated_at prev \<le> 120"
    and "isl (distance_meters_fl fl (loc_lat prev) (loc_lng prev) lat lng)"
  shows "update_bus_location fl d bid p now = (Exception ValueError, d)"
proof -
  from assms(11) obtain ex where ex: "distance_meters_fl fl (loc_lat prev) (loc_lng prev) lat lng = Inl ex"
    by (cases "distance_meters_fl fl (loc_lat prev) (loc_lng prev) lat lng") auto
  have v: "ex = ValueError" by (rule distance_meters_fl_Inl[OF ex])
  have sp0: "(if sp < 0 then 0 else sp) = 0" using assms(7) by simp
  have "estimate_speed_mps fl (Some (loc_lat prev)) (Some (loc_lng prev)) (Some (updated_at prev))
          lat lng now = Inl ValueError"
    using assms(9,10) ex v by (auto simp: estimate_speed_mps_def Let_def not_le not_less)
  then have "store_reading fl d bid lat lng 0 now = Inl ValueError"
    by (simp add: store_reading_estimated[OF assms(8)])
  with update_bus_location_accepted[OF assms(1-6), of fl now, unfolded sp0] show ?thesis by simp
qed

section \<open>The ETA query\<close>

lemma route_remaining_next_dist:
  "route_remaining_distance_fl fl tbl b lat lng = Inr (Some nxt, dist_to_next, remaining) \<Longrightarrow>
     \<exists>x. pos_dist_fl fl lat lng nxt = Inr x \<and> dist_to_next = Some x"
  by (auto simp: route_remaining_distance_fl_def Let_def split: list.splits option.splits sum.splits)

text \<open>The next stop does not depend on the arithmetic: it is the one of
  \<open>route_remaining_distance_m\<close>.\<close>

lemma route_remaining_next_stop:
  "route_remaining_distance_fl fl tbl b lat lng = Inr (nxt, dist_to_next, remaining) \<Longrightarrow>
     nxt = fst (route_remaining_distance_m tbl b lat lng)"
  by (auto simp: route_remaining_distance_fl_def route_remaining_distance_m_def Let_def
           simp del: filter.simps split: list.splits option.splits sum.splits)

text \<open>
  C5 (as the code has it). With a bus, its latest reading \<open>loc\<close> and the route
  computation returning the next stop \<open>nxt\<close> (no distance raised): the response names
  the next stop, and eta_seconds and eta_minutes are present exactly when there is a
  next stop and the speed is at least 0.5 m/s; then eta_seconds is the integer part
  (\<^verbatim>\<open>int(...)\<close>) of the quotient \<open>distance to the next stop / speed\<close> as the machine
  computes it, and eta_minutes is that whole number of seconds divided by 60 and
  rounded to the nearest integer, a tie to the even one.
\<close>

theorem get_bus_location_eta:
  assumes b: "get_bus d bid = Some b" and l: "latest_location d bid = Some loc"
    and r: "route_remaining_distance_fl fl (stop_tbl d) b (loc_lat loc) (loc_lng loc) =
              Inr (nxt, dist_to_next, remaining)"
  shows "\<exists>resp. get_bus_location fl d bid = Response resp \<and>
     resp_next_stop resp = map_option stop_name nxt \<and>
     (eta_seconds resp \<noteq> None \<longleftrightarrow> nxt \<noteq> None \<and> 0.5 \<le> loc_speed loc) \<and>
     (eta_minutes resp \<noteq> None \<longleftrightarrow> nxt \<noteq> None \<and> 0.5 \<le> loc_speed loc) \<and>
     (\<forall>s. nxt = Some s \<and> 0.5 \<le> loc_speed loc \<longrightarrow>
        (\<exists>x. pos_dist_fl fl (loc_lat loc) (loc_lng loc) s = Inr x \<and>
             eta_seconds resp = Some (py_int (f_div fl x (loc_speed loc))) \<and>
             eta_minutes resp =
               Some (py_round (f_div fl (of_int (py_int (f_div fl x (loc_speed loc)))) 60))))"
proof (cases nxt)
  case None
  with b l r show ?thesis
    by (simp add: get_bus_location_def Let_def)
next
  case (Some s)
  with r obtain x where x: "pos_dist_fl fl (loc_lat loc) (loc_lng loc) s = Inr x"
    and dn: "dist_to_next = Some x"
    using route_remaining_next_dist by blast
  show ?thesis
  proof (cases "0.5 \<le> loc_speed loc")
    case True
    with b l r Some dn x show ?thesis
      by (simp add: get_bus_location_def Let_def)
  next
    case False
    with b l r Some dn show ?thesis
      by (simp add: get_bus_location_def Let_def)
  qed
qed

lemma eta_db_bus: "get_bus (eta_db m v) 1 = Some (test_bus (Some ''S0''))"
  by (simp add: eta_db_def get_bus_def first_by_pk_def qs_first_def test_bus_def)

lemma eta_db_location:
  "latest_location (eta_db m v) 1 =
     Some (test_location\<lparr>loc_lat := 0.009 - m * 180 / (6371000 * pi), loc_speed := v\<rparr>)"
  by (simp add: eta_db_def latest_location_def order_by_desc_def qs_first_def test_location_def)

lemma eta_db_next:
  "route_remaining_distance_m (stop_tbl (eta_db m v)) (test_bus (Some ''S0'')) lat 0 =
     (Some (test_stop 2 ''S1'' 1 0.009), Some (pos_dist lat 0 (test_stop 2 ''S1'' 1 0.009)),
      Some (path_loop (test_stop 2 ''S1'' 1 0.009)
              [test_stop 3 ''S2'' 2 0.018, test_stop 4 ''S3'' 3 0.0216, test_stop 5 ''S4'' 4 0.0306]
              (pos_dist lat 0 (test_stop 2 ''S1'' 1 0.009))))"
proof -
  have "stop_tbl (eta_db m v) = test_stops" by (simp add: eta_db_def test_db_def)
  moreover have "current_of (test_bus (Some ''S0'')) test_stops = Some (test_stop 1 ''S0'' 0 0)"
    by (simp add: current_of_def test_bus_def test_stops_def test_stop_def)
  moreover have "filter (\<lambda>s. stop_order (test_stop 1 ''S0'' 0 0) < stop_order s) test_stops =
      [test_stop 2 ''S1'' 1 0.009, test_stop 3 ''S2'' 2 0.018, test_stop 4 ''S3'' 3 0.0216,
       test_stop 5 ''S4'' 4 0.0306]"
    by (simp add: test_stops_def test_stop_def)
  ultimately show ?thesis
    using route_remaining_with_current[OF route_stops_test, of "Some ''S0''" "test_stop 1 ''S0'' 0 0" lat 0]
    by simp
qed

lemma eta_db_dist:
  assumes "0 \<le> m" "m \<le> 1000"
  shows "pos_dist (0.009 - m * 180 / (6371000 * pi)) 0 (test_stop 2 ''S1'' 1 0.009) = m"
proof -
  let ?x = "m * 180 / (6371000 * pi)"
  have x0: "0 \<le> ?x" using assms by simp
  have "6371000 * 2 \<le> 6371000 * pi" using pi_ge_two by simp
  then have "1000 * 180 / (6371000 * pi) \<le> 1000 * 180 / (6371000 * 2)"
    by (intro divide_left_mono) simp_all
  moreover have "?x \<le> 1000 * 180 / (6371000 * pi)"
    using assms by (intro divide_right_mono mult_right_mono) simp_all
  ultimately have "?x < 180" by simp
  with x0 have "\<bar>0.009 - (0.009 - ?x)\<bar> < 180" by (simp add: abs_if)
  from test_stop_dist[OF this, of 2 "''S1''" 1] x0 show ?thesis by (simp add: abs_if)
qed

text \<open>The route computation on the database of the examples, without rounding: the
  next stop is S1, \<open>m\<close> metres away.\<close>

lemma eta_db_remaining:
  assumes "0 \<le> m" "m \<le> 1000"
  shows "route_remaining_distance_fl exact_ops (stop_tbl (eta_db m v)) (test_bus (Some ''S0''))
           (0.009 - m * 180 / (6371000 * pi)) 0 =
         Inr (Some (test_stop 2 ''S1'' 1 0.009), Some m,
              Some (path_loop (test_stop 2 ''S1'' 1 0.009)
                [test_stop 3 ''S2'' 2 0.018, test_stop 4 ''S3'' 3 0.0216, test_stop 5 ''S4'' 4 0.0306]
                m))"
  unfolding route_remaining_distance_fl_exact eta_db_next eta_db_dist[OF assms] ..

theorem get_bus_location_eta_witness:
  "(\<exists>resp. get_bus_location exact_ops (eta_db 305 10) 1 = Response resp
      \<and> resp_next_stop resp = Some ''S1''
      \<and> eta_seconds resp = Some 30
      \<and> eta_minutes resp = Some 0)
   \<and> (\<exists>resp. get_bus_location exact_ops (eta_db 305 0) 1 = Response resp
      \<and> resp_next_stop resp = Some ''S1''
      \<and> eta_seconds resp = None
      \<and> eta_minutes resp = None)"
proof
  let ?loc = "test_location\<lparr>loc_lat := 0.009 - 305 * 180 / (6371000 * pi), loc_speed := 10\<rparr>"
  have r: "route_remaining_distance_fl exact_ops (stop_tbl (eta_db 305 10)) (test_bus (Some ''S0''))
             (loc_lat ?loc) (loc_lng ?loc) =
           Inr (Some (test_stop 2 ''S1'' 1 0.009), Some 305,
                Some (path_loop (test_stop 2 ''S1'' 1 0.009)
                  [test_stop 3 ''S2'' 2 0.018, test_stop 4 ''S3'' 3 0.0216, test_stop 5 ''S4'' 4 0.0306]
                  305))"
    using eta_db_remaining[of 305 10] by (simp add: test_location_def)
  have dm: "pos_dist_fl exact_ops (loc_lat ?loc) (loc_lng ?loc) (test_stop 2 ''S1'' 1 0.009) = Inr 305"
    using eta_db_dist[of 305] by (simp add: test_location_def distance_meters_fl_exact)
  have sp: "loc_speed ?loc = 10" by simp
  from get_bus_location_eta[OF eta_db_bus eta_db_location r]
  obtain resp x where p: "get_bus_location exact_ops (eta_db 305 10) 1 = Response resp"
    "resp_next_stop resp = Some (stop_name (test_stop 2 ''S1'' 1 0.009))"
    "pos_dist_fl exact_ops (loc_lat ?loc) (loc_lng ?loc) (test_stop 2 ''S1'' 1 0.009) = Inr x"
    "eta_seconds resp = Some (py_int (f_div exact_ops x (loc_speed ?loc)))"
    "eta_minutes resp = Some (py_round (f_div exact_ops (of_int (py_int (f_div exact_ops x (loc_speed ?loc)))) 60))"
    by auto
  from p(3) dm have x: "x = 305" by simp
  have q: "py_int (f_div exact_ops 305 10) = 30" by (simp add: py_int_def exact_ops_def)
  have "eta_seconds resp = Some 30" unfolding p(4) x sp q ..
  moreover have "eta_minutes resp = Some 0" unfolding p(5) x sp q
    by (simp add: py_round_def exact_ops_def)
  moreover have "resp_next_stop resp = Some ''S1''" unfolding p(2) by (simp add: test_stop_def)
  ultimately show "\<exists>resp. get_bus_location exact_ops (eta_db 305 10) 1 = Response resp
      \<and> resp_next_stop resp = Some ''S1'' \<and> eta_seconds resp = Some 30 \<and> eta_minutes resp = Some 0"
    using p(1) by blast
next
  let ?loc = "test_location\<lparr>loc_lat := 0.009 - 305 * 180 / (6371000 * pi), loc_speed := 0\<rparr>"
  have r: "route_remaining_distance_fl exact_ops (stop_tbl (eta_db 305 0)) (test_bus (Some ''S0''))
             (loc_lat ?loc) (loc_lng ?loc) =
           Inr (Some (test_stop 2 ''S1'' 1 0.009), Some 305,
                Some (path_loop (test_stop 2 ''S1'' 1 0.009)
                  [test_stop 3 ''S2'' 2 0.018, test_stop 4 ''S3'' 3 0.0216, test_stop 5 ''S4'' 4 0.0306]
                  305))"
    using eta_db_remaining[of 305 0] by (simp add: test_location_def)
  from get_bus_location_eta[OF eta_db_bus eta_db_location r]
  obtain resp where p: "get_bus_location exact_ops (eta_db 305 0) 1 = Response resp"
    "resp_next_stop resp = Some (stop_name (test_stop 2 ''S1'' 1 0.009))"
    "eta_seconds resp = None" "eta_minutes resp = None"
    by auto
  have "resp_next_stop resp = Some ''S1''" unfolding p(2) by (simp add: test_stop_def)
  with p show "\<exists>resp. get_bus_location exact_ops (eta_db 305 0) 1 = Response resp
      \<and> resp_next_stop resp = Some ''S1'' \<and> eta_seconds resp = None \<and> eta_minutes resp = None"
    by blast
qed

text \<open>
  C5 as the claim states it has eta_seconds equal to the quotient
  \<open>distance to the next stop / speed\<close>. With the next stop 105 m away and a speed of
  10 m/s the quotient is 10.5, and the response has eta_seconds = 10.
\<close>

theorem get_bus_location_eta_counterexample:
  "get_bus_location exact_ops (eta_db 105 10) 1 =
     Response \<lparr>resp_lat = 0.009 - 105 * 180 / (6371000 * pi), resp_lng = 0, resp_speed = 10,
               resp_time = 0, resp_current_stop = Some ''S0'', resp_next_stop = Some ''S1'',
               eta_seconds = Some 10, eta_minutes = Some 0\<rparr>
   \<and> fst (snd (projr (route_remaining_distance_fl exact_ops (stop_tbl (eta_db 105 10))
                  (test_bus (Some ''S0'')) (0.009 - 105 * 180 / (6371000 * pi)) 0))) = Some 105
   \<and> f_div exact_ops 105 10 \<noteq> of_int 10"
proof (intro conjI)
  let ?lat = "0.009 - 105 * 180 / (6371000 * pi) :: real"
  have r0: "route_remaining_distance_fl exact_ops (stop_tbl (eta_db 105 10)) (test_bus (Some ''S0''))
             ?lat 0 =
           Inr (Some (test_stop 2 ''S1'' 1 0.009), Some 105,
                Some (path_loop (test_stop 2 ''S1'' 1 0.009)
                  [test_stop 3 ''S2'' 2 0.018, test_stop 4 ''S3'' 3 0.0216, test_stop 5 ''S4'' 4 0.0306]
                  105))"
    using eta_db_remaining[of 105 10] by simp
  show "fst (snd (projr (route_remaining_distance_fl exact_ops (stop_tbl (eta_db 105 10))
                  (test_bus (Some ''S0'')) ?lat 0))) = Some 105"
    unfolding r0 by simp
  let ?loc = "test_location\<lparr>loc_lat := ?lat, loc_speed := 10\<rparr>"
  have r: "route_remaining_distance_fl exact_ops (stop_tbl (eta_db 105 10)) (test_bus (Some ''S0''))
             (loc_lat ?loc) (loc_lng ?loc) =
           Inr (Some (test_stop 2 ''S1'' 1 0.009), Some 105,
                Some (path_loop (test_stop 2 ''S1'' 1 0.009)
                  [test_stop 3 ''S2'' 2 0.018, test_stop 4 ''S3'' 3 0.0216, test_stop 5 ''S4'' 4 0.0306]
                  105))"
    using r0 by (simp add: test_location_def)
  have q: "py_int (f_div exact_ops 105 10) = 10" by (simp add: py_int_def exact_ops_def)
  have q2: "py_round (f_div exact_ops (of_int 10) 60) = 0" by (simp add: py_round_def exact_ops_def)
  show "get_bus_location exact_ops (eta_db 105 10) 1 =
     Response \<lparr>resp_lat = ?lat, resp_lng = 0, resp_speed = 10,
               resp_time = 0, resp_current_stop = Some ''S0'', resp_next_stop = Some ''S1'',
               eta_seconds = Some 10, eta_minutes = Some 0\<rparr>"
    unfolding get_bus_location_def eta_db_bus eta_db_location option.case r sum.case prod.case
    using q q2 by (simp add: Let_def test_location_def test_bus_def test_stop_def)
  show "f_div exact_ops 105 10 \<noteq> of_int 10" by (simp add: exact_ops_def)
qed

text \<open>When the route computation raises, the query ends with the exception.\<close>

lemma get_bus_location_raises:
  "get_bus d bid = Some b \<Longrightarrow> latest_location d bid = Some loc \<Longrightarrow>
   route_remaining_distance_fl fl (stop_tbl d) b (loc_lat loc) (loc_lng loc) = Inl ex \<Longrightarrow>
     get_bus_location fl d bid = Exception ex"
  by (simp add: get_bus_location_def)

section \<open>The fare\<close>

lemma ndigits_le_iff: "0 < k \<Longrightarrow> ndigits c \<le> k \<longleftrightarrow> c < 10 ^ k"
  by (cases "c = 0") (auto simp: ndigits_def floorlog_le_iff)

lemma ndigits_1000: "ndigits 1000 = 4"
proof -
  have "ndigits 1000 \<le> 4" by (simp add: ndigits_le_iff)
  moreover have "\<not> ndigits 1000 \<le> 3" by (simp add: ndigits_le_iff)
  ultimately show ?thesis by linarith
qed

lemma dec_fix_id: "c < 10 ^ 28 \<Longrightarrow> dec_fix (Dec s c e) = Dec s c e"
  by (simp add: dec_fix_def prec_def ndigits_le_iff)

lemma strip_loop_pow:
  "e + int k \<le> ideal \<Longrightarrow> strip_loop (c * 10 ^ k) e ideal = strip_loop c (e + int k) ideal"
proof (induction k arbitrary: e)
  case 0
  then show ?case by simp
next
  case (Suc k)
  then have "e < ideal" by simp
  moreover have "(c * 10 ^ Suc k) mod 10 = 0" by simp
  moreover have "(c * 10 ^ Suc k) div 10 = c * 10 ^ k" by simp
  ultimately have "strip_loop (c * 10 ^ Suc k) e ideal = strip_loop (c * 10 ^ k) (e + 1) ideal"
    by (subst strip_loop.simps) (simp del: strip_loop.simps power_Suc)
  also have "\<dots> = strip_loop c (e + 1 + int k) ideal"
    using Suc.prems by (intro Suc.IH) simp
  also have "e + 1 + int k = e + int (Suc k)" by simp
  finally show ?case .
qed

lemma strip_loop_value:
  "strip_loop c e ideal = (c', e') \<Longrightarrow> \<exists>j. c = c' * 10 ^ j \<and> e' = e + int j"
proof (induction c e ideal rule: strip_loop.induct)
  case (1 coeff expn ideal_exp)
  show ?case
  proof (cases "expn < ideal_exp \<and> coeff mod 10 = 0")
    case True
    with "1.prems" have "strip_loop (coeff div 10) (expn + 1) ideal_exp = (c', e')"
      by (subst (asm) strip_loop.simps) (simp del: strip_loop.simps)
    from "1.IH"[OF True this] obtain j where j: "coeff div 10 = c' * 10 ^ j" "e' = expn + 1 + int j"
      by blast
    from True have "coeff = (coeff div 10) * 10" by auto
    with j have "coeff = c' * 10 ^ Suc j" by simp
    with j(2) show ?thesis by (intro exI[of _ "Suc j"]) simp
  next
    case False
    with "1.prems" have "c' = coeff" "e' = expn"
      by (subst (asm) strip_loop.simps, simp del: strip_loop.simps)+
    then show ?thesis by (intro exI[of _ 0]) simp
  qed
qed

text \<open>Dividing the decimal of a float (at most 17 digits) by 1000 is exact.\<close>

lemma dec_truediv_1000:
  assumes "c < 10 ^ 17"
  shows "\<exists>c' j. dec_truediv (Dec s c e) (Dec False 1000 0) = Inr (Dec s c' (e - 3 + int j)) \<and>
                 c = c' * 10 ^ j"
proof (cases "c = 0")
  case True
  then show ?thesis
    by (intro exI[of _ 0] exI[of _ 3]) (simp add: dec_truediv_def dec_fix_id)
next
  case False
  define shift where "shift = int (ndigits 1000) - int (ndigits c) + int prec + 1"
  have n17: "ndigits c \<le> 17" using assms by (simp add: ndigits_le_iff)
  then have sh: "3 \<le> shift" by (simp add: shift_def ndigits_1000 prec_def)
  define k where "k = nat (shift - 3)"
  have ns: "nat shift = k + 3" using sh by (simp add: k_def)
  have q: "(c * 10 ^ nat shift) div 1000 = c * 10 ^ k" "(c * 10 ^ nat shift) mod 1000 = 0"
    by (simp_all add: ns power_add)
  have "strip_loop (c * 10 ^ k) (e - 0 - shift) (e - 0) = strip_loop c (e - shift + int k) e"
    using sh by (simp add: strip_loop_pow k_def del: strip_loop.simps)
  also have "e - shift + int k = e - 3" using sh by (simp add: k_def)
  finally have st: "strip_loop (c * 10 ^ k) (e - 0 - shift) (e - 0) = strip_loop c (e - 3) e" .
  obtain c' e' where ce: "strip_loop c (e - 3) e = (c', e')" by (cases "strip_loop c (e - 3) e")
  from strip_loop_value[OF ce] obtain j where j: "c = c' * 10 ^ j" "e' = e - 3 + int j" by blast
  from j(1) False have "c' \<le> c" by (cases "c' = 0") auto
  with assms have "c' < 10 ^ 28" by (simp add: order_le_less_trans[OF _ less_trans[of _ "10 ^ 17"]])
  then have fx: "dec_fix (Dec s c' e') = Dec s c' e'" by (rule dec_fix_id)
  have "dec_truediv (Dec s c e) (Dec False 1000 0) = Inr (Dec s c' e')"
    using False sh q st ce fx
    by (simp add: dec_truediv_def Let_def shift_def[symmetric] del: strip_loop.simps)
  with j show ?thesis by blast
qed

lemma dec_value_div_1000:
  "c = c' * 10 ^ j \<Longrightarrow> dec_value s c' (e - 3 + int j) = dec_value s c e / 1000"
proof -
  assume c: "c = c' * 10 ^ j"
  have "(10::real) powi (e - 3 + int j) = 10 powi e * 10 powi (- 3) * 10 powi (int j)"
    by (simp add: power_int_add power_int_diff)
  also have "\<dots> = 10 powi e * 10 ^ j / 1000" by (simp add: power_int_minus)
  finally show ?thesis by (simp add: dec_value_def c)
qed

lemma scaled_real:
  "m \<le> e \<Longrightarrow> real_of_int (scaled s c e m) = dec_value s c e * 10 powi (- m)"
proof -
  assume "m \<le> e"
  then have "(10::real) ^ nat (e - m) = 10 powi (e - m)" by (simp add: power_int_def)
  also have "\<dots> = 10 powi e * 10 powi (- m)" by (simp add: power_int_diff power_int_minus field_simps)
  finally show ?thesis by (simp add: scaled_def dec_value_def)
qed

lemma dec_le_value:
  "dec_le (Dec sa ca ea) (Dec sb cb eb) = Inr (dec_value sa ca ea \<le> dec_value sb cb eb)"
proof -
  define m where "m = min ea eb"
  have p: "0 < (10::real) powi (- m)" by simp
  have "scaled sa ca ea m \<le> scaled sb cb eb m \<longleftrightarrow>
        real_of_int (scaled sa ca ea m) \<le> real_of_int (scaled sb cb eb m)" by simp
  also have "\<dots> \<longleftrightarrow> dec_value sa ca ea * 10 powi (- m) \<le> dec_value sb cb eb * 10 powi (- m)"
    by (simp add: scaled_real m_def)
  also have "\<dots> \<longleftrightarrow> dec_value sa ca ea \<le> dec_value sb cb eb"
    by (rule mult_le_cancel_right_pos[OF p])
  finally show ?thesis by (simp add: dec_le_def Let_def m_def)
qed

lemma ceiling_div_nat:
  assumes "0 < b"
  shows "\<lceil>real a / real b\<rceil> = int (if a mod b \<noteq> 0 then a div b + 1 else a div b)"
proof -
  have "\<lceil>real a / real b\<rceil> = \<lceil>real_of_int (int a) / real_of_int (int b)\<rceil>" by simp
  also have "\<dots> = - ((- int a) div int b)" by (rule ceiling_divide_eq_div)
  also have "\<dots> = (if int a mod int b = 0 then int a div int b else int a div int b + 1)"
    using assms by (simp add: zdiv_zminus1_eq_if)
  also have "\<dots> = int (if a mod b \<noteq> 0 then a div b + 1 else a div b)"
    by (simp flip: of_nat_mod of_nat_div)
  finally show ?thesis .
qed

text \<open>The steps of the function after the comparison, for a quotient \<open>km\<close> above the base.\<close>

lemma fare_steps_above:
  assumes c: "c < 10 ^ 17" and above: "5 / 2 < dec_value False c e"
    and lim: "10 + \<lceil>dec_value False c e - 5 / 2\<rceil> < 10 ^ 26"
  shows "\<exists>extra_km.
     dec_sub (Dec False c e) (Dec False 25 (- 1)) = Inr extra_km \<and>
     int_of_decimal (to_integral_value_ceiling extra_km) = Inr \<lceil>dec_value False c e - 5 / 2\<rceil> \<and>
     dec_add (Dec False 10 0) (decimal_of_int \<lceil>dec_value False c e - 5 / 2\<rceil>) =
       Inr (Dec False (nat (10 + \<lceil>dec_value False c e - 5 / 2\<rceil>)) 0) \<and>
     quantize (Dec False (nat (10 + \<lceil>dec_value False c e - 5 / 2\<rceil>)) 0) (Dec False 1 (- 2)) =
       Inr (Dec False (nat (10 + \<lceil>dec_value False c e - 5 / 2\<rceil>) * 100) (- 2))"
proof -
  define K where "K = dec_value False c e"
  define U where "U = \<lceil>K - 5 / 2\<rceil>"
  define m where "m = min e (- 1)"
  define n where "n = scaled False c e m + scaled True 25 (- 1) m"
  have c0: "c \<noteq> 0"
  proof
    assume "c = 0"
    with above show False by (simp add: dec_value_def)
  qed
  have U1: "1 \<le> U" using above by (simp add: U_def K_def)
  have Ul: "10 + U < 10 ^ 26" using lim by (simp add: U_def K_def)
  have m1: "m \<le> e" "m \<le> - 1" by (simp_all add: m_def)
  have v25: "dec_value True 25 (- 1) = - (5 / 2)" by (simp add: dec_value_def)
  have nr: "real_of_int n = (K - 5 / 2) * 10 powi (- m)"
    using m1 by (simp add: n_def scaled_real K_def v25 algebra_simps)
  have npos: "0 < n"
  proof -
    have "0 < (K - 5 / 2) * 10 powi (- m)" using above by (simp add: K_def)
    with nr show ?thesis by simp
  qed
  have nb: "nat n < 10 ^ 28"
  proof (cases "e \<le> - 1")
    case True
    then have "m = e" by (simp add: m_def)
    then have "n \<le> int c" by (simp add: n_def scaled_def)
    with c show ?thesis by simp
  next
    case False
    then have m: "m = - 1" and e0: "0 \<le> e" by (simp_all add: m_def)
    have "K \<le> of_int U + 5 / 2" unfolding U_def by linarith
    also have "\<dots> < 10 ^ 26" using Ul by (simp add: algebra_simps)
    finally have "K < 10 ^ 26" .
    then have "(K - 5 / 2) * 10 < 10 ^ 27" by simp
    then have "real_of_int n < 10 ^ 27" using nr by (simp add: m)
    then have "real_of_int n < real_of_int (10 ^ 27)" by simp
    then have "n < 10 ^ 27" by (simp only: of_int_less_iff)
    then show ?thesis by simp
  qed
  have sub: "dec_sub (Dec False c e) (Dec False 25 (- 1)) = Inr (Dec False (nat n) m)"
    using c0 npos dec_fix_id[OF nb]
    by (simp add: dec_sub_def dec_neg_def dec_add_def Let_def m_def[symmetric] n_def[symmetric])
  define k where "k = nat (- m)"
  have km: "int k = - m" using m1 by (simp add: k_def)
  have "real (nat n) / real (10 ^ k) = (K - 5 / 2)"
  proof -
    have "(10::real) powi (- m) = 10 ^ k" using km by (metis power_int_of_nat)
    moreover have "real (nat n) = real_of_int n" using npos by simp
    ultimately show ?thesis using nr by simp
  qed
  then have "\<lceil>real (nat n) / real (10 ^ k)\<rceil> = U" by (simp add: U_def)
  then have ce: "int (if nat n mod 10 ^ k \<noteq> 0 then nat n div 10 ^ k + 1 else nat n div 10 ^ k) = U"
    using ceiling_div_nat[of "10 ^ k" "nat n"] by simp
  have ti: "int_of_decimal (to_integral_value_ceiling (Dec False (nat n) m)) = Inr U"
    using m1 ce by (simp add: to_integral_value_ceiling_def int_of_decimal_def Let_def k_def[symmetric])
  have du: "decimal_of_int U = Dec False (nat U) 0" using U1 by (simp add: decimal_of_int_def)
  have ub: "10 + nat U < 10 ^ 28" "10 + nat U < 10 ^ 26" "nat U \<noteq> 0"
    using U1 Ul by auto
  have s10: "scaled False 10 0 0 + scaled False (nat U) 0 0 = 10 + U"
    using U1 by (simp add: scaled_def)
  have add: "dec_add (Dec False 10 0) (decimal_of_int U) = Inr (Dec False (nat (10 + U)) 0)"
  proof -
    have "nat (10 + U) < 10 ^ 28" using U1 Ul by auto
    from dec_fix_id[OF this] ub(3) s10 U1 show ?thesis
      by (simp add: du dec_add_def Let_def)
  qed
  have q: "quantize (Dec False (nat (10 + U)) 0) (Dec False 1 (- 2)) =
           Inr (Dec False (nat (10 + U) * 100) (- 2))"
  proof -
    have a: "nat (10 + U) < 10 ^ 26" "nat (10 + U) \<noteq> 0" using U1 Ul by auto
    then have "ndigits (nat (10 + U)) \<le> 26" by (simp add: ndigits_le_iff)
    moreover have "nat (10 + U) * 100 < 10 ^ 28" using a(1) by simp
    then have "ndigits (nat (10 + U) * 100) \<le> 28" by (simp add: ndigits_le_iff)
    ultimately show ?thesis using a(2)
      by (simp add: quantize_def prec_def Let_def)
  qed
  show ?thesis
    unfolding K_def[symmetric] U_def[symmetric]
    by (rule exI[of _ "Dec False (nat n) m"]) (intro conjI sub ti add q)
qed

lemma dec_truediv_1000_odd:
  assumes "c < 10 ^ 17" and "c mod 10 \<noteq> 0"
  shows "dec_truediv (Dec s c e) (Dec False 1000 0) = Inr (Dec s c (e - 3))"
proof -
  from dec_truediv_1000[OF assms(1), of s e] obtain c' j where
    r: "dec_truediv (Dec s c e) (Dec False 1000 0) = Inr (Dec s c' (e - 3 + int j))"
    and c: "c = c' * 10 ^ j" by blast
  have "j = 0"
  proof (rule ccontr)
    assume "j \<noteq> 0"
    then obtain i where "j = Suc i" by (cases j) auto
    with c have "c mod 10 = 0" by simp
    with assms(2) show False by simp
  qed
  with r c show ?thesis by simp
qed

lemma quantize_cents:
  "c \<noteq> 0 \<Longrightarrow> quantize (Dec s c 0) (Dec False 1 (- 2)) =
     (if c < 10 ^ 26 then Inr (Dec s (c * 100) (- 2)) else Inl InvalidOperation)"
proof (cases "c < 10 ^ 26")
  case True
  assume c: "c \<noteq> 0"
  from True have "ndigits c \<le> 26" by (simp add: ndigits_le_iff)
  moreover from True have "c * 100 < 10 ^ 28" by simp
  then have "ndigits (c * 100) \<le> 28" by (simp add: ndigits_le_iff)
  ultimately show ?thesis using c True by (simp add: quantize_def prec_def Let_def)
next
  case False
  assume c: "c \<noteq> 0"
  from False have "\<not> ndigits c \<le> 26" by (simp add: ndigits_le_iff)
  then show ?thesis using c False by (simp add: quantize_def prec_def Let_def)
qed

text \<open>The fare of a finite float below the limit of the decimal context.\<close>

lemma fare_float:
  assumes c: "c < 10 ^ 17"
  shows "dec_value s c e \<le> 2500 \<Longrightarrow> fare_from_distance_m (Float s c e) = Inr (Dec False 10 0)"
    and "2500 < dec_value s c e \<Longrightarrow> 10 + \<lceil>dec_value s c e / 1000 - 5 / 2\<rceil> < 10 ^ 26 \<Longrightarrow>
         fare_from_distance_m (Float s c e) =
           Inr (Dec False (nat (10 + \<lceil>dec_value s c e / 1000 - 5 / 2\<rceil>) * 100) (- 2))"
proof -
  from dec_truediv_1000[OF c, of s e] obtain c' j where
    km: "dec_truediv (Dec s c e) (Dec False 1000 0) = Inr (Dec s c' (e - 3 + int j))"
    and cj: "c = c' * 10 ^ j" by blast
  define e' where "e' = e - 3 + int j"
  have K: "dec_value s c' e' = dec_value s c e / 1000"
    unfolding e'_def by (rule dec_value_div_1000[OF cj])
  have base: "dec_value False 25 (- 1) = 5 / 2" by (simp add: dec_value_def)
  have le: "dec_le (Dec s c' e') (Dec False 25 (- 1)) = Inr (dec_value s c e \<le> 2500)"
    by (simp add: dec_le_value K base)
  {
    assume "dec_value s c e \<le> 2500"
    with km le show "fare_from_distance_m (Float s c e) = Inr (Dec False 10 0)"
      by (simp add: fare_from_distance_m_def decimal_of_str_def e'_def)
  next
    assume above: "2500 < dec_value s c e"
      and lim: "10 + \<lceil>dec_value s c e / 1000 - 5 / 2\<rceil> < 10 ^ 26"
    have s: "\<not> s"
    proof
      assume s
      then have "dec_value s c e \<le> 0" by (simp add: dec_value_def)
      with above show False by simp
    qed
    have c'le: "c' < 10 ^ 17"
    proof -
      have "c' \<le> c" using cj by (cases "c' = 0") auto
      with c show ?thesis by simp
    qed
    have a': "5 / 2 < dec_value False c' e'" using above K s by simp
    have l': "10 + \<lceil>dec_value False c' e' - 5 / 2\<rceil> < 10 ^ 26" using lim K s by simp
    from fare_steps_above[OF c'le a' l'] obtain extra_km where
      st: "dec_sub (Dec False c' e') (Dec False 25 (- 1)) = Inr extra_km"
      "int_of_decimal (to_integral_value_ceiling extra_km) = Inr \<lceil>dec_value False c' e' - 5 / 2\<rceil>"
      "dec_add (Dec False 10 0) (decimal_of_int \<lceil>dec_value False c' e' - 5 / 2\<rceil>) =
         Inr (Dec False (nat (10 + \<lceil>dec_value False c' e' - 5 / 2\<rceil>)) 0)"
      "quantize (Dec False (nat (10 + \<lceil>dec_value False c' e' - 5 / 2\<rceil>)) 0) (Dec False 1 (- 2)) =
         Inr (Dec False (nat (10 + \<lceil>dec_value False c' e' - 5 / 2\<rceil>) * 100) (- 2))"
      by blast
    have kv: "dec_value False c' e' = dec_value s c e / 1000" using K s by simp
    from km le above s st
    show "fare_from_distance_m (Float s c e) =
           Inr (Dec False (nat (10 + \<lceil>dec_value s c e / 1000 - 5 / 2\<rceil>) * 100) (- 2))"
      by (simp add: fare_from_distance_m_def decimal_of_str_def e'_def[symmetric] kv)
  }
qed

lemma fare_1e30: "fare_from_distance_m (Float False 1 30) = Inl InvalidOperation"
proof -
  have km: "dec_truediv (Dec False 1 30) (Dec False 1000 0) = Inr (Dec False 1 27)"
    using dec_truediv_1000_odd[of 1 False 30] by simp
  have le: "dec_le (Dec False 1 27) (Dec False 25 (- 1)) = Inr False"
    by (simp add: dec_le_def scaled_def)
  have sub: "dec_sub (Dec False 1 27) (Dec False 25 (- 1)) =
             Inr (Dec False 9999999999999999999999999975 (- 1))"
    by (simp add: dec_sub_def dec_neg_def dec_add_def scaled_def dec_fix_id)
  have ti: "int_of_decimal (to_integral_value_ceiling (Dec False 9999999999999999999999999975 (- 1))) =
            Inr 999999999999999999999999998"
    by (simp add: to_integral_value_ceiling_def int_of_decimal_def)
  have add: "dec_add (Dec False 10 0) (decimal_of_int 999999999999999999999999998) =
             Inr (Dec False 1000000000000000000000000008 0)"
    by (simp add: decimal_of_int_def dec_add_def scaled_def dec_fix_id)
  have q: "quantize (Dec False 1000000000000000000000000008 0) (Dec False 1 (- 2)) =
           Inl InvalidOperation"
    using quantize_cents[of 1000000000000000000000000008 False] by simp
  show ?thesis
    by (simp add: fare_from_distance_m_def decimal_of_str_def km le sub ti add q
        del: One_nat_def)
qed

lemma fare_nan: "fare_from_distance_m FloatNaN = Inl InvalidOperation"
  by (simp add: fare_from_distance_m_def decimal_of_str_def dec_truediv_def dec_le_def)

lemma fare_2400: "fare_from_distance_m (Float False 24000 (- 1)) = Inr (Dec False 10 0)"
  by (rule fare_float(1)) (simp_all add: dec_value_def)

lemma fare_3400: "fare_from_distance_m (Float False 34000 (- 1)) = Inr (Dec False 1100 (- 2))"
proof -
  have v: "dec_value False 34000 (- 1) = 3400" by (simp add: dec_value_def)
  have u: "\<lceil>(3400::real) / 1000 - 5 / 2\<rceil> = 1" by (simp add: ceiling_eq_iff)
  from fare_float(2)[of 34000 False "- 1"] show ?thesis by (simp add: v u)
qed

lemma fare_minus_1: "fare_from_distance_m (Float True 10 (- 1)) = Inr (Dec False 10 0)"
  by (rule fare_float(1)) (simp_all add: dec_value_def)

lemma dec_value_cents: "dec_value False (n * 100) (- 2) = real n"
  by (simp add: dec_value_def power_int_minus)

lemma fare_2501: "fare_from_distance_m (Float False 25010 (- 1)) = Inr (Dec False 1100 (- 2))"
proof -
  have v: "dec_value False 25010 (- 1) = 2501" by (simp add: dec_value_def)
  have u: "\<lceil>(1::real) / 1000\<rceil> = 1" by (simp add: ceiling_eq_iff)
  from fare_float(2)[of 25010 False "- 1"] show ?thesis by (simp add: v u)
qed

lemma fare_5001: "fare_from_distance_m (Float False 50010 (- 1)) = Inr (Dec False 1300 (- 2))"
proof -
  have v: "dec_value False 50010 (- 1) = 5001" by (simp add: dec_value_def)
  have u: "\<lceil>(2501::real) / 1000\<rceil> = 3" by (simp add: ceiling_eq_iff)
  from fare_float(2)[of 50010 False "- 1"] show ?thesis by (simp add: v u)
qed

text \<open>
  C1 (as the code has it). For a finite float distance \<open>d\<close> (the numeral that \<^verbatim>\<open>str\<close>
  prints): at most 2500 m the fare is the decimal 10; above 2500 m it is
  \<open>10 + ceil(d / 1000 - 2.5)\<close> with two decimal places. The rule is stated for the
  distances whose fare is below \<open>10\<^sup>26\<close>, that is below about \<open>10\<^sup>29\<close> m, which no
  path on a route reaches (28 digits are the precision of the decimal context). A
  path of 2.4 km costs 10, one of 3.4 km costs 11.00, and one of 2.501 km, which is
  0.001 km over the base, costs 11.00: one extra unit.
\<close>

theorem fare_from_distance_rule:
  assumes "float_repr c e"
  shows "(dec_value s c e \<le> 2500 \<longrightarrow> fare_from_distance_m (Float s c e) = Inr (Dec False 10 0))
       \<and> (2500 < dec_value s c e \<and> 10 + \<lceil>dec_value s c e / 1000 - 5 / 2\<rceil> < 10 ^ 26 \<longrightarrow>
            fare_from_distance_m (Float s c e) =
              Inr (Dec False (nat (10 + \<lceil>dec_value s c e / 1000 - 5 / 2\<rceil>) * 100) (- 2)))"
proof -
  from assms have c: "c < 10 ^ 17" by (simp add: float_repr_def)
  show ?thesis using fare_float[OF c, of s e] by blast
qed

theorem fare_from_distance_rule_witness:
  "fare_from_distance_m (Float False 24000 (- 1)) = Inr (Dec False 10 0)
   \<and> fare_from_distance_m (Float False 34000 (- 1)) = Inr (Dec False 1100 (- 2))
   \<and> fare_from_distance_m (Float False 25010 (- 1)) = Inr (Dec False 1100 (- 2))"
proof (intro conjI)
  have r: "float_repr 24000 (- 1)" "float_repr 34000 (- 1)" "float_repr 25010 (- 1)"
    by (simp_all add: float_repr_def)
  have v: "dec_value False 24000 (- 1) = 2400" "dec_value False 34000 (- 1) = 3400"
    "dec_value False 25010 (- 1) = 2501"
    by (simp_all add: dec_value_def)
  have u: "\<lceil>(3400::real) / 1000 - 5 / 2\<rceil> = 1" "\<lceil>(1::real) / 1000\<rceil> = 1"
    by (simp_all add: ceiling_eq_iff)
  from fare_from_distance_rule[OF r(1), of False]
  show "fare_from_distance_m (Float False 24000 (- 1)) = Inr (Dec False 10 0)"
    by (simp add: v)
  from fare_from_distance_rule[OF r(2), of False]
  show "fare_from_distance_m (Float False 34000 (- 1)) = Inr (Dec False 1100 (- 2))"
    by (simp add: v u)
  from fare_from_distance_rule[OF r(3), of False]
  show "fare_from_distance_m (Float False 25010 (- 1)) = Inr (Dec False 1100 (- 2))"
    by (simp add: v u)
qed

text \<open>
  C1 as the claim states it has the example "2.501 km of extra yields 1 extra unit".
  A path of 5001 m has 2.501 km of extra over the base of 2.5 km; the ceiling of 2.501
  is 3, and its fare is 13.00: three extra units.
\<close>

theorem fare_from_distance_rule_counterexample:
  "dec_value False 50010 (- 1) / 1000 - 5 / 2 = 2501 / 1000
   \<and> fare_from_distance_m (Float False 50010 (- 1)) = Inr (Dec False 1300 (- 2))
   \<and> dec_value False 1300 (- 2) = 10 + 3"
  by (simp add: dec_value_def fare_5001 power_int_minus)

text \<open>Outside that range, from about \<open>10\<^sup>29\<close> m on, the function raises, since
  \<^verbatim>\<open>quantize\<close> cannot give the amount two decimal places within 28 digits
  (\<open>fare_1e30\<close> above). What follows is the shape of a fare that is returned, and the
  arguments that are not finite numbers.\<close>

lemma dec_fix_Dec: "\<exists>s' c' e'. dec_fix (Dec s c e) = Dec s' c' e'"
  by (simp add: dec_fix_def Let_def)

lemma dec_add_Dec: "\<exists>s c e. dec_add (Dec s1 c1 e1) (Dec s2 c2 e2) = Inr (Dec s c e)"
  using dec_fix_Dec by (simp add: dec_add_def Let_def)

lemma quantize_Dec:
  "quantize (Dec s c e) (Dec False 1 (- 2)) = Inr f \<Longrightarrow> \<exists>s' c'. f = Dec s' c' (- 2)"
  by (auto simp add: quantize_def Let_def split: if_splits)

lemma fare_result_shape:
  assumes "fare_from_distance_m x = Inr f"
  shows "f = Dec False 10 0 \<or> (\<exists>s c. f = Dec s c (- 2))"
proof (cases "case decimal_of_str x of Inl ex \<Rightarrow> Inl ex
                                     | Inr y \<Rightarrow> dec_truediv y (Dec False 1000 0)")
  case (Inl ex)
  with assms show ?thesis by (simp add: fare_from_distance_m_def)
next
  case (Inr km)
  show ?thesis
  proof (cases "dec_le km (Dec False 25 (- 1))")
    case (Inl ex)
    with Inr assms show ?thesis by (simp add: fare_from_distance_m_def)
  next
    case le: (Inr b)
    show ?thesis
    proof (cases b)
      case True
      with Inr le assms show ?thesis by (simp add: fare_from_distance_m_def)
    next
      case False
      show ?thesis
      proof (cases "dec_sub km (Dec False 25 (- 1))")
        case (Inl ex)
        with Inr le False assms show ?thesis by (simp add: fare_from_distance_m_def)
      next
        case sub: (Inr extra_km)
        show ?thesis
        proof (cases "int_of_decimal (to_integral_value_ceiling extra_km)")
          case (Inl ex)
          with Inr le False sub assms show ?thesis by (simp add: fare_from_distance_m_def)
        next
          case units: (Inr extra_units)
          obtain s c e where
            add: "dec_add (Dec False 10 0) (decimal_of_int extra_units) = Inr (Dec s c e)"
            unfolding decimal_of_int_def using dec_add_Dec by blast
          from Inr le False sub units add assms
          have "quantize (Dec s c e) (Dec False 1 (- 2)) = Inr f"
            by (simp add: fare_from_distance_m_def)
          then show ?thesis using quantize_Dec by blast
        qed
      qed
    qed
  qed
qed

lemma fare_neg_inf: "fare_from_distance_m (FloatInf True) = Inr (Dec False 10 0)"
  by (simp add: fare_from_distance_m_def decimal_of_str_def dec_truediv_def dec_le_def)

lemma fare_not_numeric: "fare_from_distance_m NotNumeric = Inr (Dec False 10 0)"
  by (simp add: fare_from_distance_m_def decimal_of_str_def)

lemma fare_pos_inf: "fare_from_distance_m (FloatInf False) = Inl OverflowError"
  by (simp add: fare_from_distance_m_def decimal_of_str_def dec_truediv_def dec_le_def
        dec_sub_def dec_neg_def dec_add_def to_integral_value_ceiling_def int_of_decimal_def)

text \<open>
  C7. The claim has no exception on any input and two decimal places on every fare.
  The code evaluated where it does otherwise: the float \<^verbatim>\<open>nan\<close> is parsed inside the
  \<^verbatim>\<open>try\<close> block and the comparison \<^verbatim>\<open>km <= base_km\<close>, which is outside it, raises
  \<^verbatim>\<open>InvalidOperation\<close>; \<^verbatim>\<open>inf\<close> raises \<^verbatim>\<open>OverflowError\<close> in \<^verbatim>\<open>int(...)\<close>; and the base
  fare is returned as the decimal \<^verbatim>\<open>10\<close>, whose exponent is 0, for the negative
  distance \<^verbatim>\<open>-1.0\<close> as for the 2.4 km path, while the branch above the base quantizes
  to two places (\<^verbatim>\<open>11.00\<close> for 3.4 km).
\<close>

theorem fare_raises_and_base_fare_unquantized:
  "fare_from_distance_m FloatNaN = Inl InvalidOperation
   \<and> fare_from_distance_m (FloatInf False) = Inl OverflowError
   \<and> fare_from_distance_m (Float True 10 (- 1)) = Inr (Dec False 10 0)
   \<and> fare_from_distance_m (Float False 24000 (- 1)) = Inr (Dec False 10 0)
   \<and> fare_from_distance_m (Float False 34000 (- 1)) = Inr (Dec False 1100 (- 2))"
  by (simp add: fare_nan fare_pos_inf fare_minus_1 fare_2400 fare_3400)

text \<open>
  C8. For two finite float distances \<open>d\<^sub>1 \<le> d\<^sub>2\<close>, both fares are returned and the fare
  of \<open>d\<^sub>1\<close> is at most the fare of \<open>d\<^sub>2\<close>. The distances are those whose fare is below
  \<open>10\<^sup>26\<close> (below about \<open>10\<^sup>29\<close> m), which no path on a route exceeds.
\<close>

theorem fare_monotone:
  assumes r1: "float_repr c1 e1" and r2: "float_repr c2 e2"
    and le: "dec_value s1 c1 e1 \<le> dec_value s2 c2 e2"
    and lim: "10 + \<lceil>dec_value s2 c2 e2 / 1000 - 5 / 2\<rceil> < 10 ^ 26"
  shows "\<exists>a1 x1 a2 x2.
           fare_from_distance_m (Float s1 c1 e1) = Inr (Dec False a1 x1)
         \<and> fare_from_distance_m (Float s2 c2 e2) = Inr (Dec False a2 x2)
         \<and> dec_value False a1 x1 \<le> dec_value False a2 x2"
proof -
  define d1 where "d1 = dec_value s1 c1 e1"
  define d2 where "d2 = dec_value s2 c2 e2"
  define u1 where "u1 = \<lceil>d1 / 1000 - 5 / 2\<rceil>"
  define u2 where "u2 = \<lceil>d2 / 1000 - 5 / 2\<rceil>"
  from r1 r2 have c1: "c1 < 10 ^ 17" and c2: "c2 < 10 ^ 17" by (simp_all add: float_repr_def)
  from le have d: "d1 \<le> d2" by (simp add: d1_def d2_def)
  then have u: "u1 \<le> u2" unfolding u1_def u2_def by (intro ceiling_mono) simp
  from lim have lim2: "10 + u2 < 10 ^ 26" by (simp add: u2_def d2_def)
  with u have lim1: "10 + u1 < 10 ^ 26" by linarith
  have ten: "dec_value False 10 0 = 10" by (simp add: dec_value_def)
  have pos: "0 < u" if "2500 < x" "u = \<lceil>x / 1000 - 5 / 2\<rceil>" for x :: real and u
  proof -
    from that(1) have "0 < x / 1000 - 5 / 2" by simp
    then show ?thesis unfolding that(2) by (simp add: zero_less_ceiling)
  qed
  show ?thesis
  proof (cases "d2 \<le> 2500")
    case True
    with d have "d1 \<le> 2500" by simp
    then have f1: "fare_from_distance_m (Float s1 c1 e1) = Inr (Dec False 10 0)"
      unfolding d1_def by (rule fare_float(1)[OF c1])
    from True have f2: "fare_from_distance_m (Float s2 c2 e2) = Inr (Dec False 10 0)"
      unfolding d2_def by (rule fare_float(1)[OF c2])
    show ?thesis
      by (intro exI[of _ 10] exI[of _ 0]) (simp add: f1 f2)
  next
    case False
    then have big2: "2500 < d2" by simp
    then have p2: "0 < u2" using u2_def by (rule pos)
    from big2 lim2
    have f2: "fare_from_distance_m (Float s2 c2 e2) = Inr (Dec False (nat (10 + u2) * 100) (- 2))"
      unfolding d2_def u2_def by (rule fare_float(2)[OF c2])
    have v2: "dec_value False (nat (10 + u2) * 100) (- 2) = real (nat (10 + u2))"
      by (rule dec_value_cents)
    show ?thesis
    proof (cases "d1 \<le> 2500")
      case True
      then have f1: "fare_from_distance_m (Float s1 c1 e1) = Inr (Dec False 10 0)"
        unfolding d1_def by (rule fare_float(1)[OF c1])
      from p2 have "(10::real) \<le> real (nat (10 + u2))" by linarith
      then have "dec_value False 10 0 \<le> dec_value False (nat (10 + u2) * 100) (- 2)"
        by (simp only: ten v2)
      with f1 f2 show ?thesis by blast
    next
      case False
      then have big1: "2500 < d1" by simp
      then have p1: "0 < u1" using u1_def by (rule pos)
      from big1 lim1
      have f1: "fare_from_distance_m (Float s1 c1 e1) = Inr (Dec False (nat (10 + u1) * 100) (- 2))"
        unfolding d1_def u1_def by (rule fare_float(2)[OF c1])
      have v1: "dec_value False (nat (10 + u1) * 100) (- 2) = real (nat (10 + u1))"
        by (rule dec_value_cents)
      from u p1 have "real (nat (10 + u1)) \<le> real (nat (10 + u2))" by linarith
      then have "dec_value False (nat (10 + u1) * 100) (- 2)
                 \<le> dec_value False (nat (10 + u2) * 100) (- 2)"
        by (simp only: v1 v2)
      with f1 f2 show ?thesis by blast
    qed
  qed
qed

theorem fare_monotone_witness:
  "float_repr 24000 (- 1) \<and> float_repr 34000 (- 1)
   \<and> dec_value False 24000 (- 1) \<le> dec_value False 34000 (- 1)
   \<and> 10 + \<lceil>dec_value False 34000 (- 1) / 1000 - 5 / 2\<rceil> < 10 ^ 26
   \<and> fare_from_distance_m (Float False 24000 (- 1)) = Inr (Dec False 10 0)
   \<and> fare_from_distance_m (Float False 34000 (- 1)) = Inr (Dec False 1100 (- 2))
   \<and> dec_value False 10 0 \<le> dec_value False 1100 (- 2)"
proof -
  have r: "float_repr 24000 (- 1)" "float_repr 34000 (- 1)"
    by (simp_all add: float_repr_def)
  have v: "dec_value False 24000 (- 1) = 2400" "dec_value False 34000 (- 1) = 3400"
    by (simp_all add: dec_value_def)
  have u: "\<lceil>(3400::real) / 1000 - 5 / 2\<rceil> = 1" by (simp add: ceiling_eq_iff)
  have le: "dec_value False 24000 (- 1) \<le> dec_value False 34000 (- 1)" by (simp add: v)
  have lim: "10 + \<lceil>dec_value False 34000 (- 1) / 1000 - 5 / 2\<rceil> < 10 ^ 26" by (simp add: v u)
  from fare_monotone[OF r le lim]
  have "dec_value False 10 0 \<le> dec_value False 1100 (- 2)"
    by (simp add: fare_2400 fare_3400)
  with r le lim show ?thesis by (simp only: fare_2400 fare_3400 simp_thms)
qed

end
